(* ===== verification/Prelude.thy ===== *)
theory Prelude
  imports Main "HOL-Library.Word"
begin

text \<open>
  Shared vocabulary of the VP8L lossless decoder model (src/src/loaders/webp/dec/vp8l.cpp):
  the machine types of the C code as words, the little-endian reading of a byte buffer
  that the bit reader and the header parser share, and the forward element copy that
  the LZ77 back-reference copy routines are compared against.  The lemmas here are the
  generic facts on lists, words and little-endian numbers the component theories use.
\<close>

unbundle bit_operations_syntax

type_synonym u8 = "8 word"
type_synonym u32 = "32 word"
type_synonym u64 = "64 word"

named_theorems vp8l_nth \<open>nth characterisations of the model's list-writing loops\<close>

subsection \<open>Little-endian numbers\<close>

text \<open>The value of a byte buffer read least significant byte first.\<close>

primrec le_value :: "u8 list \<Rightarrow> nat" where
  "le_value [] = 0"
| "le_value (b # bs) = unat b + 256 * le_value bs"

text \<open>The \<open>n\<close> low bytes of a number, least significant first.\<close>

definition le_bytes :: "nat \<Rightarrow> nat \<Rightarrow> u8 list" where
  "le_bytes n x = map (\<lambda>i. of_nat (x div 256 ^ i mod 256)) [0..<n]"

subsection \<open>The forward element copy\<close>

text \<open>
  \<open>for (i = 0; i < length; ++i) dst[i] = src[i];\<close> over one buffer: the loop reads
  what it has already written when the source lies less than \<open>length\<close> elements
  behind the destination.  Both copy routines of the decoder fall back to it.
\<close>

fun copy_fwd :: "'a list \<Rightarrow> nat \<Rightarrow> nat \<Rightarrow> nat \<Rightarrow> 'a list" where
  "copy_fwd mem d s 0 = mem"
| "copy_fwd mem d s (Suc n) = copy_fwd (mem[d := mem ! s]) (Suc d) (Suc s) n"

text \<open>\<open>memcpy\<close>: every element is read before any is written.\<close>

definition mem_copy :: "'a list \<Rightarrow> nat \<Rightarrow> nat \<Rightarrow> nat \<Rightarrow> 'a list" where
  "mem_copy mem d s n =
     map (\<lambda>k. if d \<le> k \<and> k < d + n then mem ! (s + (k - d)) else mem ! k) [0..<length mem]"

subsection \<open>Lemmas on machine words\<close>

text \<open>\<open>(uintptr_t)p & 3\<close>, the alignment test of the copy routines.\<close>

lemma and_3_mod_4: "(addr::nat) AND 3 = addr mod 4"
proof -
  have "(3::nat) = mask 2" by (simp add: mask_eq_exp_minus_1)
  then have "addr AND 3 = take_bit 2 addr" by (simp add: take_bit_eq_mask)
  then show ?thesis by (simp add: take_bit_eq_mod)
qed

subsection \<open>Lemmas on little-endian numbers\<close>

lemma le_value_bound: "le_value bs < 256 ^ length bs"
proof (induction bs)
  case Nil
  then show ?case by simp
next
  case (Cons b bs)
  have "unat b < 256" using unsigned_less [of b] by simp
  with Cons.IH show ?case by simp
qed

lemma odd_div_add_mult_256:
  assumes "j < 8"
  shows "odd ((u + 256 * x) div 2 ^ j) = odd ((u::nat) div 2 ^ j)"
proof -
  have p: "(256::nat) = 2 ^ j * 2 ^ (8 - j)"
    using assms by (simp flip: power_add)
  have "(u + 256 * x) div 2 ^ j = u div 2 ^ j + 2 ^ (8 - j) * x"
    by (simp add: p mult.assoc)
  moreover have "even ((2::nat) ^ (8 - j) * x)"
    using assms by simp
  ultimately show ?thesis by simp
qed

lemma div_256_add: "(u::nat) < 256 \<Longrightarrow> (u + 256 * x) div 256 = x"
  by simp

lemma bit_u8_le_value:
  "j < 8 * length bs \<Longrightarrow>
   bit (bs ! (j div 8)) (j mod 8) = odd (le_value bs div 2 ^ j)"
proof (induction bs arbitrary: j)
  case Nil
  then show ?case by simp
next
  case (Cons b bs)
  have ub: "unat b < 256" using unsigned_less [of b] by simp
  show ?case
  proof (cases "j < 8")
    case True
    then have "bit ((b # bs) ! (j div 8)) (j mod 8) = bit b j" by simp
    also have "\<dots> = bit (unat b) j"
      using True by (simp add: bit_unsigned_iff)
    also have "\<dots> = odd (unat b div 2 ^ j)"
      by (simp add: bit_iff_odd)
    also have "\<dots> = odd (le_value (b # bs) div 2 ^ j)"
      using True by (simp add: odd_div_add_mult_256)
    finally show ?thesis .
  next
    case False
    have "j = 8 + (j - 8)"
      using False by simp
    then have pow: "(2::nat) ^ j = 2 ^ 8 * 2 ^ (j - 8)"
      by (metis power_add)
    have "(j - 8) div 8 = j div 8 - 1" and "(j - 8) mod 8 = j mod 8" and "0 < j div 8"
      using False by (auto simp: div_if mod_if)
    then have "bit ((b # bs) ! (j div 8)) (j mod 8) = bit (bs ! ((j - 8) div 8)) ((j - 8) mod 8)"
      by (simp add: nth_Cons')
    also have "\<dots> = odd (le_value bs div 2 ^ (j - 8))"
      using Cons.prems False by (intro Cons.IH) simp
    also have "le_value bs = le_value (b # bs) div 256"
      using ub by simp
    also have "le_value (b # bs) div 256 div 2 ^ (j - 8) = le_value (b # bs) div 2 ^ j"
      using pow by (simp add: div_mult2_eq)
    finally show ?thesis .
  qed
qed

lemma le_value_high_bits_zero:
  "8 * length bs \<le> j \<Longrightarrow> le_value bs div 2 ^ j = 0"
proof -
  assume "8 * length bs \<le> j"
  moreover have "(256::nat) ^ length bs = 2 ^ (8 * length bs)"
    by (simp add: power_mult)
  ultimately have "(256::nat) ^ length bs \<le> 2 ^ j"
    by (simp add: power_increasing)
  with le_value_bound [of bs] show ?thesis by simp
qed

lemma le_value_le_bytes: "le_value (le_bytes n x) = x mod 256 ^ n"
proof (induction n arbitrary: x)
  case 0
  then show ?case by (simp add: le_bytes_def)
next
  case (Suc n)
  have split: "le_bytes (Suc n) x = of_nat (x mod 256) # le_bytes n (x div 256)"
    by (simp add: le_bytes_def map_upt_Suc div_mult2_eq power_Suc2 del: upt_Suc)
  have "unat (of_nat (x mod 256) :: u8) = x mod 256"
    by (simp add: unat_of_nat)
  then show ?case
    by (simp add: split Suc.IH mod_mult2_eq power_Suc2 ac_simps)
qed

lemma le_value_byte: "i < length bs \<Longrightarrow> le_value bs div 256 ^ i mod 256 = unat (bs ! i)"
proof (induction bs arbitrary: i)
  case Nil
  then show ?case by simp
next
  case (Cons b bs)
  have ub: "unat b < 256" using unsigned_less [of b] by simp
  show ?case
  proof (cases i)
    case 0
    with ub show ?thesis by simp
  next
    case (Suc j)
    have "(256::nat) ^ i = 256 * 256 ^ j" using Suc by simp
    then have "le_value (b # bs) div 256 ^ i = le_value (b # bs) div 256 div 256 ^ j"
      by (simp only: div_mult2_eq)
    also have "le_value (b # bs) div 256 = le_value bs" using ub by simp
    finally have "le_value (b # bs) div 256 ^ i = le_value bs div 256 ^ j" .
    with Cons Suc show ?thesis by simp
  qed
qed

lemma length_le_bytes [simp]: "length (le_bytes n x) = n"
  by (simp add: le_bytes_def)

subsection \<open>Lemmas on the copy loops\<close>

lemma length_copy_fwd [simp]: "length (copy_fwd mem d s n) = length mem"
  by (induction mem d s n rule: copy_fwd.induct) simp_all

lemma copy_fwd_snoc:
  "copy_fwd mem d s (Suc n) = (let m = copy_fwd mem d s n in m[d + n := m ! (s + n)])"
  by (induction mem d s n rule: copy_fwd.induct) (simp_all add: Let_def)

lemma copy_fwd_outside:
  "\<not> (d \<le> k \<and> k < d + n) \<Longrightarrow> copy_fwd mem d s n ! k = mem ! k"
  by (induction n) (auto simp: copy_fwd_snoc Let_def nth_list_update simp del: copy_fwd.simps(2))

text \<open>
  A copy from \<open>D\<close> elements behind repeats the \<open>D\<close> elements before the
  destination: element \<open>i\<close> of the copy is source element \<open>i mod D\<close>.
\<close>

lemma copy_fwd_nth [vp8l_nth]:
  assumes "s < d" and "d + n \<le> length mem"
  shows "copy_fwd mem d s n ! k =
           (if d \<le> k \<and> k < d + n then mem ! (s + (k - d) mod (d - s)) else mem ! k)"
  using assms(2)
proof (induction n arbitrary: k)
  case 0
  then show ?case by auto
next
  case (Suc n)
  let ?m = "copy_fwd mem d s n"
  have IH: "\<And>k. ?m ! k = (if d \<le> k \<and> k < d + n then mem ! (s + (k - d) mod (d - s)) else mem ! k)"
    using Suc by simp
  have read: "?m ! (s + n) = mem ! (s + n mod (d - s))"
  proof (cases "d \<le> s + n")
    case True
    have "s + n - d = n - (d - s)"
      using True assms(1) by arith
    also have "(n - (d - s)) mod (d - s) = n mod (d - s)"
      using True by (simp add: le_mod_geq)
    finally have "(s + n - d) mod (d - s) = n mod (d - s)" .
    with True assms(1) IH [of "s + n"] show ?thesis by simp
  next
    case False
    then have "n < d - s" by simp
    with False IH [of "s + n"] show ?thesis by simp
  qed
  show ?case
    using Suc.prems IH read
    by (auto simp: copy_fwd_snoc Let_def nth_list_update simp del: copy_fwd.simps(2))
qed

lemma mem_copy_nth [vp8l_nth]:
  "k < length mem \<Longrightarrow>
   mem_copy mem d s n ! k = (if d \<le> k \<and> k < d + n then mem ! (s + (k - d)) else mem ! k)"
  by (simp add: mem_copy_def)

lemma length_mem_copy [simp]: "length (mem_copy mem d s n) = length mem"
  by (simp add: mem_copy_def)

text \<open>Without overlap the forward loop and \<open>memcpy\<close> agree.\<close>

lemma copy_fwd_eq_mem_copy:
  assumes "s + n \<le> d" and "d + n \<le> length mem"
  shows "copy_fwd mem d s n = mem_copy mem d s n"
proof (rule nth_equalityI)
  show "length (copy_fwd mem d s n) = length (mem_copy mem d s n)" by simp
next
  fix k assume k: "k < length (copy_fwd mem d s n)"
  have "s < d \<or> n = 0" using assms by auto
  then show "copy_fwd mem d s n ! k = mem_copy mem d s n ! k"
  proof
    assume "s < d"
    show ?thesis
    proof (cases "d \<le> k \<and> k < d + n")
      case True
      then have "(k - d) mod (d - s) = k - d"
        using assms by (intro mod_less) linarith
      with True \<open>s < d\<close> k assms show ?thesis
        by (simp add: copy_fwd_nth mem_copy_nth)
    next
      case False
      with \<open>s < d\<close> k assms show ?thesis
        by (auto simp: copy_fwd_nth mem_copy_nth)
    qed
  next
    assume "n = 0"
    with k show ?thesis by (auto simp: mem_copy_nth)
  qed
qed

text \<open>A list that repeats with period \<open>w\<close> on a range takes its first \<open>w\<close> values there.\<close>

lemma periodic_nth:
  assumes per: "\<And>k. d \<le> k \<Longrightarrow> k + w < e \<Longrightarrow> T ! (k + w) = T ! k" and w: "0 < w"
  shows "d + j < e \<Longrightarrow> T ! (d + j) = T ! (d + j mod w)"
proof (induction j rule: less_induct)
  case (less j)
  show ?case
  proof (cases "j < w")
    case True
    then show ?thesis by simp
  next
    case False
    then have e: "d + (j - w) + w = d + j" by simp
    have "T ! (d + (j - w) + w) = T ! (d + (j - w))"
      using less.prems e by (intro per) simp_all
    then have "T ! (d + j) = T ! (d + (j - w))" by (simp only: e)
    also have "\<dots> = T ! (d + (j - w) mod w)"
      using less.IH [of "j - w"] less.prems False w by simp
    finally show ?thesis
      using False by (simp add: le_mod_geq)
  qed
qed

text \<open>
  The forward loop completes a target \<open>T\<close> that repeats with period \<open>D\<close> on the
  copied range, once memory agrees with \<open>T\<close> on the \<open>D\<close> elements before it.
\<close>

lemma copy_fwd_completes:
  assumes D: "0 < D" "D \<le> d"
    and agree: "\<And>k. d - D \<le> k \<Longrightarrow> k < d \<Longrightarrow> m ! k = T ! k"
    and per: "\<And>k. d \<le> k \<Longrightarrow> k < d + r \<Longrightarrow> T ! (k - D) = T ! k"
    and len: "d + r \<le> length m"
  shows "copy_fwd m d (d - D) r ! k = (if d \<le> k \<and> k < d + r then T ! k else m ! k)"
  using per len
proof (induction r arbitrary: k)
  case 0
  then show ?case by auto
next
  case (Suc r)
  let ?m = "copy_fwd m d (d - D) r"
  have IH: "\<And>k. ?m ! k = (if d \<le> k \<and> k < d + r then T ! k else m ! k)"
    using Suc by simp
  have "?m ! (d - D + r) = T ! (d + r - D)"
  proof (cases "d \<le> d - D + r")
    case True
    then show ?thesis using IH [of "d - D + r"] D by simp
  next
    case False
    then show ?thesis using IH [of "d - D + r"] agree [of "d - D + r"] D by simp
  qed
  also have "\<dots> = T ! (d + r)" using Suc.prems(1) [of "d + r"] by simp
  finally have rd: "?m ! (d - D + r) = T ! (d + r)" .
  show ?case
    using Suc.prems(2) IH rd
    by (auto simp: copy_fwd_snoc Let_def nth_list_update simp del: copy_fwd.simps(2))
qed

text \<open>Each copied element equals the one \<open>D\<close> elements before it.\<close>

lemma copy_fwd_period:
  assumes "0 < D" "D \<le> d" "d + L \<le> length mem" "d \<le> k" "k < d + L"
  shows "copy_fwd mem d (d - D) L ! (k - D) = copy_fwd mem d (d - D) L ! k"
proof (cases "d \<le> k - D")
  case True
  have "D \<le> k - d" using True assms(2) by arith
  then have "(k - d) mod D = (k - d - D) mod D" by (rule le_mod_geq)
  moreover have "k - d - D = k - D - d" by arith
  ultimately have "(k - D - d) mod D = (k - d) mod D" by simp
  with True assms show ?thesis by (simp add: copy_fwd_nth)
next
  case False
  then have "k - d < D" using assms(4) by arith
  then have "d - D + (k - d) mod D = k - D" using assms(2,4) False by simp
  with False assms show ?thesis by (simp add: copy_fwd_nth)
qed


text \<open>A copy from \<open>D\<close> behind also repeats with every multiple of \<open>D\<close>.\<close>

lemma copy_fwd_period_dvd:
  assumes "0 < D" "D dvd w" "D \<le> d" "d + L \<le> length mem" "d \<le> k" "k + w < d + L"
  shows "copy_fwd mem d (d - D) L ! (k + w) = copy_fwd mem d (d - D) L ! k"
proof -
  obtain c where w: "w = D * c" using assms(2) by blast
  have "(k + w - d) mod D = (k - d + D * c) mod D" using assms(5) w by simp
  also have "\<dots> = (k - d) mod D" by simp
  finally show ?thesis using assms by (simp add: copy_fwd_nth)
qed

text \<open>
  The fallback both copy routines share: \<open>memcpy\<close> when the ranges do not overlap,
  the element loop otherwise; either way the result of the element loop.
\<close>

lemma copy_fallback_eq:
  assumes "dist \<le> d" "d + len \<le> length mem"
  shows "(if dist \<ge> len then mem_copy mem d (d - dist) len else copy_fwd mem d (d - dist) len)
         = copy_fwd mem d (d - dist) len"
proof (cases "dist \<ge> len")
  case True
  then have "d - dist + len \<le> d" using assms(1) by simp
  with True assms(2) show ?thesis by (simp add: copy_fwd_eq_mem_copy)
qed simp

text \<open>A result tuple determined by the components a witness computes.\<close>

lemma prod_eq_fst: "fst p = a \<Longrightarrow> p = (a, snd p)"
  by (cases p) simp

lemma prod_eq_fst3: "fst p = a \<Longrightarrow> p = (a, fst (snd p), snd (snd p))"
  by (cases p) auto

lemma prod_eq_snd_snd: "snd (snd p) = c \<Longrightarrow> p = (fst p, fst (snd p), c)"
  by (cases p) auto

text \<open>Counting the elements a filter keeps.\<close>

lemma length_filter_mono_set: "\<forall>x\<in>set xs. Q x \<longrightarrow> P x \<Longrightarrow> length (filter Q xs) \<le> length (filter P xs)"
  by (induction xs) auto

lemma length_filter_remove1:
  assumes "distinct xs" "x \<in> set xs" "P x" "\<forall>y\<in>set xs. Q y \<longleftrightarrow> P y \<and> y \<noteq> x"
  shows "Suc (length (filter Q xs)) = length (filter P xs)"
  using assms
proof (induction xs)
  case (Cons y ys)
  show ?case
  proof (cases "y = x")
    case True
    then have "filter Q ys = filter P ys" using Cons.prems by (auto intro: filter_cong)
    then show ?thesis using True Cons.prems by simp
  next
    case False
    then show ?thesis using Cons by auto
  qed
qed simp

end
