(* ===== verification/BitReader.thy ===== *)
theory BitReader
  imports Prelude
begin

text \<open>
  The bit reader \<open>VP8LBitReader\<close> (utils/bit_reader, outside src/, modelled from the
  spec) and the stream header parser of vp8l.cpp (\<open>VP8LCheckSignature\<close>,
  \<open>ReadImageInfo\<close>, \<open>VP8LGetInfo\<close>).  The reader's 64-bit prefetch window is abstracted
  to the absolute bit position in the buffer: bits are taken least significant first,
  bits past the end read as zero, and the end-of-stream flag is raised as soon as the
  position passes the last bit of the buffer, as \<open>VP8LSetBitPos\<close> does through
  \<open>VP8LIsEndOfStream\<close>.  \<open>VP8LFillBitWindow\<close> only refills the window, so it has no
  counterpart here.  The theory proves that a read returns the little-endian field at
  the cursor, and that the header parser reads back any well-formed header.
\<close>

record bit_reader =
  br_buf :: "u8 list"
  br_bit_pos :: nat
  br_eos :: bool

definition VP8LInitBitReader :: "u8 list \<Rightarrow> bit_reader" where
  "VP8LInitBitReader data = \<lparr>br_buf = data, br_bit_pos = 0, br_eos = False\<rparr>"

text \<open>Bit \<open>j\<close> of the stream, least significant bit of each byte first.\<close>

definition stream_bit :: "u8 list \<Rightarrow> nat \<Rightarrow> bool" where
  "stream_bit data j = (j div 8 < length data \<and> bit (data ! (j div 8)) (j mod 8))"

fun bits_at :: "u8 list \<Rightarrow> nat \<Rightarrow> nat \<Rightarrow> nat" where
  "bits_at data p 0 = 0"
| "bits_at data p (Suc n) = of_bool (stream_bit data p) + 2 * bits_at data (Suc p) n"

definition VP8LIsEndOfStream :: "bit_reader \<Rightarrow> bool" where
  "VP8LIsEndOfStream br = (br_eos br \<or> 8 * length (br_buf br) < br_bit_pos br)"

definition VP8LSetBitPos :: "bit_reader \<Rightarrow> nat \<Rightarrow> bit_reader" where
  "VP8LSetBitPos br v =
     (let br' = br\<lparr>br_bit_pos := v\<rparr> in br'\<lparr>br_eos := VP8LIsEndOfStream br'\<rparr>)"

text \<open>The 32 bits at the cursor, without advancing; nothing is left after the end.\<close>

definition VP8LPrefetchBits :: "bit_reader \<Rightarrow> nat" where
  "VP8LPrefetchBits br = (if br_eos br then 0 else bits_at (br_buf br) (br_bit_pos br) 32)"

definition VP8LReadBits :: "bit_reader \<Rightarrow> nat \<Rightarrow> nat \<times> bit_reader" where
  "VP8LReadBits br n_bits =
     (if n_bits \<le> 24 \<and> \<not> br_eos br
      then (bits_at (br_buf br) (br_bit_pos br) n_bits,
            VP8LSetBitPos br (br_bit_pos br + n_bits))
      else (0, br\<lparr>br_eos := True\<rparr>))"

subsection \<open>The stream header (vp8l.cpp, lines 109--144)\<close>

definition VP8L_MAGIC_BYTE :: nat where
  "VP8L_MAGIC_BYTE = 0x2f"

definition VP8LCheckSignature :: "u8 list \<Rightarrow> bool" where
  "VP8LCheckSignature data =
     (5 \<le> length data \<and> unat (data ! 0) = VP8L_MAGIC_BYTE \<and> drop_bit 5 (data ! 4) = 0)"

text \<open>
  \<open>ReadImageInfo\<close>: magic byte, 14 bits of \<open>width - 1\<close>, 14 bits of \<open>height - 1\<close>,
  the alpha bit and 3 version bits that must be 0.  The result is
  \<open>Some (width, height, has_alpha)\<close>, or \<open>None\<close> where the C function returns 0;
  the reader is returned as the C function leaves it.
\<close>

definition ReadImageInfo :: "bit_reader \<Rightarrow> (nat \<times> nat \<times> nat) option \<times> bit_reader" where
  "ReadImageInfo br0 =
     (let (magic, br1) = VP8LReadBits br0 8 in
      if magic \<noteq> VP8L_MAGIC_BYTE then (None, br1) else
      let (w, br2) = VP8LReadBits br1 14;
          (h, br3) = VP8LReadBits br2 14;
          (a, br4) = VP8LReadBits br3 1;
          (v, br5) = VP8LReadBits br4 3
      in if v \<noteq> 0 then (None, br5)
         else if br_eos br5 then (None, br5)
         else (Some (w + 1, h + 1, a), br5))"

text \<open>\<open>VP8LGetInfo\<close>; a list is never \<open>NULL\<close>, so only the size test remains of the first guard.\<close>

definition VP8LGetInfo :: "u8 list \<Rightarrow> (nat \<times> nat \<times> nat) option" where
  "VP8LGetInfo data =
     (if length data < 5 then None
      else if \<not> VP8LCheckSignature data then None
      else fst (ReadImageInfo (VP8LInitBitReader data)))"

subsection \<open>A well-formed header, for the round trip\<close>

text \<open>The 40 header bits of an image, packed as the spec's section 6 lays them out.\<close>

definition vp8l_header_bits :: "nat \<Rightarrow> nat \<Rightarrow> nat \<Rightarrow> nat" where
  "vp8l_header_bits w h a = 0x2f + 2 ^ 8 * ((w - 1) + 2 ^ 14 * ((h - 1) + 2 ^ 14 * a))"

definition vp8l_header :: "nat \<Rightarrow> nat \<Rightarrow> nat \<Rightarrow> u8 list" where
  "vp8l_header w h a = le_bytes 5 (vp8l_header_bits w h a)"

subsection \<open>Reading bits\<close>

lemma stream_bit_le_value: "stream_bit data j = odd (le_value data div 2 ^ j)"
proof (cases "j < 8 * length data")
  case True
  then show ?thesis
    by (simp add: stream_bit_def bit_u8_le_value less_mult_imp_div_less)
next
  case False
  then have "\<not> j div 8 < length data" by auto
  with False show ?thesis
    by (simp add: stream_bit_def le_value_high_bits_zero)
qed

text \<open>A read of \<open>n\<close> bits at position \<open>p\<close> is the little-endian field there.\<close>

lemma bits_at_le_value: "bits_at data p n = le_value data div 2 ^ p mod 2 ^ n"
proof (induction n arbitrary: p)
  case 0
  then show ?case by simp
next
  case (Suc n)
  let ?x = "le_value data div 2 ^ p"
  have "?x mod 2 ^ Suc n = ?x mod 2 + 2 * (?x div 2 mod 2 ^ n)"
    by (simp add: mod_mult2_eq power_Suc2 mult.commute)
  moreover have "?x div 2 = le_value data div 2 ^ Suc p"
    by (simp add: div_mult2_eq power_Suc2 del: power_Suc)
  ultimately show ?case
    using Suc.IH [of "Suc p"] by (simp add: stream_bit_le_value odd_iff_mod_2_eq_one)
qed

lemma bits_at_bound: "bits_at data p n < 2 ^ n"
  by (simp add: bits_at_le_value)

lemma bits_at_append:
  "p + n \<le> 8 * length xs \<Longrightarrow> bits_at (xs @ ys) p n = bits_at xs p n"
proof (induction n arbitrary: p)
  case 0
  then show ?case by simp
next
  case (Suc n)
  have "p div 8 < length xs" using Suc.prems by auto
  then have "stream_bit (xs @ ys) p = stream_bit xs p"
    by (simp add: stream_bit_def nth_append)
  with Suc show ?case by simp
qed

lemma VP8LReadBits_value:
  "n \<le> 24 \<Longrightarrow> \<not> br_eos br \<Longrightarrow>
   fst (VP8LReadBits br n) = le_value (br_buf br) div 2 ^ br_bit_pos br mod 2 ^ n"
  by (simp add: VP8LReadBits_def bits_at_le_value)

lemma VP8LReadBits_bound: "fst (VP8LReadBits br n) < 2 ^ n"
  by (simp add: VP8LReadBits_def bits_at_bound)

lemma VP8LReadBits_buf [simp]: "br_buf (snd (VP8LReadBits br n)) = br_buf br"
  by (simp add: VP8LReadBits_def VP8LSetBitPos_def Let_def)

lemma VP8LSetBitPos_buf [simp]: "br_buf (VP8LSetBitPos br v) = br_buf br"
  by (simp add: VP8LSetBitPos_def Let_def)

lemma VP8LSetBitPos_pos [simp]: "br_bit_pos (VP8LSetBitPos br v) = v"
  by (simp add: VP8LSetBitPos_def Let_def)

lemma VP8LSetBitPos_eos:
  "br_eos (VP8LSetBitPos br v) = (br_eos br \<or> 8 * length (br_buf br) < v)"
  by (simp add: VP8LSetBitPos_def VP8LIsEndOfStream_def Let_def)

text \<open>The end-of-stream flag never falls once raised.\<close>

lemma VP8LReadBits_eos_mono: "br_eos br \<Longrightarrow> br_eos (snd (VP8LReadBits br n))"
  by (simp add: VP8LReadBits_def)

lemma VP8LSetBitPos_eos_mono: "br_eos br \<Longrightarrow> br_eos (VP8LSetBitPos br v)"
  by (simp add: VP8LSetBitPos_eos)

text \<open>A read inside the buffer advances the cursor by its width and keeps the flag down.\<close>

lemma VP8LReadBits_inside:
  assumes "n \<le> 24" and "\<not> br_eos br" and "br_bit_pos br + n \<le> 8 * length (br_buf br)"
  shows "VP8LReadBits br n =
           (le_value (br_buf br) div 2 ^ br_bit_pos br mod 2 ^ n,
            br\<lparr>br_bit_pos := br_bit_pos br + n\<rparr>)"
  using assms
  by (simp add: VP8LReadBits_def VP8LSetBitPos_def VP8LIsEndOfStream_def bits_at_le_value Let_def)

subsection \<open>The header parser\<close>

lemma bits_at_le_bytes:
  assumes "p + n \<le> 8 * k" and "x < 256 ^ k"
  shows "bits_at (le_bytes k x @ rest) p n = x div 2 ^ p mod 2 ^ n"
proof -
  have "bits_at (le_bytes k x @ rest) p n = bits_at (le_bytes k x) p n"
    using assms(1) by (simp only: bits_at_append length_le_bytes)
  also have "\<dots> = x div 2 ^ p mod 2 ^ n"
    using assms(2) by (simp only: bits_at_le_value le_value_le_bytes mod_less)
  finally show ?thesis .
qed

lemma drop_bit_5_u8_small: "x < 32 \<Longrightarrow> drop_bit 5 (of_nat x :: u8) = 0"
proof -
  assume "x < 32"
  then have "unat (drop_bit 5 (of_nat x :: u8)) = 0"
    by (simp add: drop_bit_eq_div unat_div unat_of_nat)
  then show ?thesis by (simp add: unat_0_iff)
qed

text \<open>The fields of a packed header, one by one.\<close>

lemma vp8l_header_bits_fields:
  assumes "1 \<le> w" "w \<le> 16384" "1 \<le> h" "h \<le> 16384" "a \<le> 1"
  defines "N \<equiv> vp8l_header_bits w h a"
  shows "N mod 2 ^ 8 = 0x2f" and "N div 2 ^ 8 mod 2 ^ 14 = w - 1"
    and "N div 2 ^ 22 mod 2 ^ 14 = h - 1" and "N div 2 ^ 36 mod 2 ^ 1 = a"
    and "N div 2 ^ 37 mod 2 ^ 3 = 0" and "N div 256 ^ 4 mod 256 < 32"
    and "N < 256 ^ 5"
proof -
  have W: "w - 1 < 16384" and H: "h - 1 < 16384"
    using assms(2,4) by simp_all
  define A where "A = (h - 1) + 16384 * a"
  define B where "B = (w - 1) + 16384 * A"
  have N: "N = 47 + 256 * B"
    by (simp add: N_def vp8l_header_bits_def A_def B_def)
  have d8: "N div 256 = B" and m8: "N mod 256 = 47"
    by (simp_all add: N)
  have dB: "B div 16384 = A" and mB: "B mod 16384 = w - 1"
    using W by (simp_all add: B_def)
  have dA: "A div 16384 = a" and mA: "A mod 16384 = h - 1"
    using H by (simp_all add: A_def)
  have d22: "N div 4194304 = A"
  proof -
    have "N div 4194304 = N div 256 div 16384"
      by (simp add: div_mult2_eq [symmetric])
    then show ?thesis by (simp add: d8 dB)
  qed
  have d36: "N div 68719476736 = a"
  proof -
    have "N div 68719476736 = N div 4194304 div 16384"
      by (simp add: div_mult2_eq [symmetric])
    then show ?thesis by (simp add: d22 dA)
  qed
  show "N mod 2 ^ 8 = 0x2f" using m8 by simp
  show "N div 2 ^ 8 mod 2 ^ 14 = w - 1" using d8 mB by simp
  show "N div 2 ^ 22 mod 2 ^ 14 = h - 1" using d22 mA by simp
  show "N div 2 ^ 36 mod 2 ^ 1 = a" using assms(5) d36 by simp
  have "N div 137438953472 = N div 68719476736 div 2"
    by (simp add: div_mult2_eq [symmetric])
  then show "N div 2 ^ 37 mod 2 ^ 3 = 0" using assms(5) by (simp add: d36)
  have "N div 4294967296 = N div 4194304 div 1024"
    by (simp add: div_mult2_eq [symmetric])
  moreover have "A < 2 ^ 15" using H assms(5) by (simp add: A_def)
  ultimately show "N div 256 ^ 4 mod 256 < 32" by (simp add: d22)
  have "B < 2 ^ 32" using W \<open>A < 2 ^ 15\<close> by (simp add: B_def)
  then show "N < 256 ^ 5" by (simp add: N)
qed

text \<open>The first five bytes of any stream that starts with a well-formed header.\<close>

lemma vp8l_header_signature:
  assumes "1 \<le> w" "w \<le> 16384" "1 \<le> h" "h \<le> 16384" "a \<le> 1"
  shows "VP8LCheckSignature (vp8l_header w h a @ rest)"
proof -
  note f = vp8l_header_bits_fields [OF assms]
  let ?N = "vp8l_header_bits w h a"
  have b0: "(vp8l_header w h a @ rest) ! 0 = of_nat (?N mod 256)"
    by (simp add: vp8l_header_def le_bytes_def nth_append upt_rec)
  have b4: "(vp8l_header w h a @ rest) ! 4 = of_nat (?N div 256 ^ 4 mod 256)"
    by (simp add: vp8l_header_def le_bytes_def nth_append upt_rec)
  have "unat (of_nat (?N mod 256) :: u8) = ?N mod 256"
    by (simp add: unat_of_nat)
  with f(1) b0 have "unat ((vp8l_header w h a @ rest) ! 0) = VP8L_MAGIC_BYTE"
    by (simp add: VP8L_MAGIC_BYTE_def)
  moreover have "drop_bit 5 ((vp8l_header w h a @ rest) ! 4) = 0"
    using f(6) by (simp add: b4 drop_bit_5_u8_small)
  ultimately show ?thesis
    by (simp add: VP8LCheckSignature_def vp8l_header_def)
qed

text \<open>\<open>ReadImageInfo\<close> after its five reads, on a reader at the start of a stream.\<close>

lemma ReadImageInfo_unfold:
  assumes "5 \<le> length data"
  defines "x \<equiv> le_value data"
  shows "ReadImageInfo (VP8LInitBitReader data) =
    (if x mod 2 ^ 8 \<noteq> VP8L_MAGIC_BYTE
     then (None, (VP8LInitBitReader data)\<lparr>br_bit_pos := 8\<rparr>)
     else if x div 2 ^ 37 mod 2 ^ 3 \<noteq> 0
     then (None, (VP8LInitBitReader data)\<lparr>br_bit_pos := 40\<rparr>)
     else (Some (x div 2 ^ 8 mod 2 ^ 14 + 1, x div 2 ^ 22 mod 2 ^ 14 + 1, x div 2 ^ 36 mod 2 ^ 1),
           (VP8LInitBitReader data)\<lparr>br_bit_pos := 40\<rparr>))"
  using assms
  by (simp add: ReadImageInfo_def VP8LReadBits_inside VP8LInitBitReader_def Let_def)

lemma le_value_header_fields:
  assumes "1 \<le> w" "w \<le> 16384" "1 \<le> h" "h \<le> 16384" "a \<le> 1"
    and "p + n \<le> 40"
  shows "le_value (vp8l_header w h a @ rest) div 2 ^ p mod 2 ^ n
           = vp8l_header_bits w h a div 2 ^ p mod 2 ^ n"
proof -
  note f = vp8l_header_bits_fields [OF assms(1-5)]
  have "bits_at (vp8l_header w h a @ rest) p n = vp8l_header_bits w h a div 2 ^ p mod 2 ^ n"
    unfolding vp8l_header_def using assms(6) f(7) by (intro bits_at_le_bytes) simp_all
  then show ?thesis by (simp add: bits_at_le_value)
qed

subsection \<open>Properties of the header parser\<close>

text \<open>
  C1. Header round trip: the parser \<open>VP8LGetInfo\<close> returns the width, height and alpha
  flag that were packed into a 5-byte VP8L signature, for every size in 1..16384 and
  whatever bytes follow the header.
\<close>

theorem VP8LGetInfo_roundtrip:
  assumes "1 \<le> w" "w \<le> 16384" "1 \<le> h" "h \<le> 16384" "a \<le> 1"
  shows "VP8LGetInfo (vp8l_header w h a @ rest) = Some (w, h, a)"
proof -
  let ?d = "vp8l_header w h a @ rest"
  note f = vp8l_header_bits_fields [OF assms]
  note x = le_value_header_fields [OF assms, of _ _ rest]
  have len: "5 \<le> length ?d" by (simp add: vp8l_header_def)
  have "le_value ?d mod 2 ^ 8 = VP8L_MAGIC_BYTE"
    using x [of 0 8] f(1) by (simp add: VP8L_MAGIC_BYTE_def)
  moreover have "le_value ?d div 2 ^ 37 mod 2 ^ 3 = 0"
    using x [of 37 3] f(5) by simp
  moreover have "le_value ?d div 2 ^ 8 mod 2 ^ 14 + 1 = w"
    using x [of 8 14] f(2) assms(1) by simp
  moreover have "le_value ?d div 2 ^ 22 mod 2 ^ 14 + 1 = h"
    using x [of 22 14] f(3) assms(3) by simp
  moreover have "le_value ?d div 2 ^ 36 mod 2 ^ 1 = a"
    using x [of 36 1] f(4) by simp
  ultimately have "fst (ReadImageInfo (VP8LInitBitReader ?d)) = Some (w, h, a)"
    using len by (simp add: ReadImageInfo_unfold)
  with len vp8l_header_signature [OF assms] show ?thesis
    by (simp add: VP8LGetInfo_def)
qed

text \<open>The spec's scenario (a): the signature \<open>2F 00 00 00 00\<close> of a 1x1 image.\<close>

theorem VP8LGetInfo_roundtrip_witness:
  "VP8LGetInfo [0x2f, 0, 0, 0, 0] = Some (1, 1, 0)"
proof -
  have "vp8l_header 1 1 0 = [0x2f, 0, 0, 0, 0]"
    by (simp add: vp8l_header_def vp8l_header_bits_def le_bytes_def upt_rec)
  moreover have "VP8LGetInfo (vp8l_header 1 1 0 @ []) = Some (1, 1, 0)"
    by (rule VP8LGetInfo_roundtrip) simp_all
  ultimately show ?thesis by simp
qed

text \<open>
  C2. Whatever bytes it is given, a header \<open>VP8LGetInfo\<close> accepts has at least five bytes,
  the magic byte 0x2F, version bits 0, a width and a height in 1..16384 and an alpha
  flag of one bit; shorter input is refused.
\<close>

theorem VP8LGetInfo_sound:
  "VP8LGetInfo data = Some (w, h, a) \<Longrightarrow>
   5 \<le> length data \<and> unat (data ! 0) = 0x2f \<and> drop_bit 5 (data ! 4) = 0 \<and>
   1 \<le> w \<and> w \<le> 16384 \<and> 1 \<le> h \<and> h \<le> 16384 \<and> a \<le> 1"
proof -
  assume ok: "VP8LGetInfo data = Some (w, h, a)"
  then have len: "5 \<le> length data" and sig: "VP8LCheckSignature data"
    and rd: "fst (ReadImageInfo (VP8LInitBitReader data)) = Some (w, h, a)"
    by (auto simp: VP8LGetInfo_def split: if_splits)
  define W H A where "W = le_value data div 2 ^ 8 mod 2 ^ 14"
    and "H = le_value data div 2 ^ 22 mod 2 ^ 14" and "A = le_value data div 2 ^ 36 mod 2 ^ 1"
  from rd len have "w = W + 1" and "h = H + 1" and "a = A"
    by (simp_all add: ReadImageInfo_unfold W_def H_def A_def split: if_splits)
  moreover have "W < 2 ^ 14" and "H < 2 ^ 14" and "A < 2 ^ 1"
    by (simp_all add: W_def H_def A_def)
  ultimately show ?thesis
    using len sig by (simp add: VP8LCheckSignature_def VP8L_MAGIC_BYTE_def)
qed

theorem VP8LGetInfo_sound_witness:
  "VP8LGetInfo [0x2f, 0, 0, 0, 0] = Some (1, 1, 0) \<and>
   5 \<le> length [0x2f, 0, 0, 0, 0 :: u8] \<and> (1::nat) \<le> 16384"
proof -
  have "vp8l_header 1 1 0 = [0x2f, 0, 0, 0, 0]"
    by (simp add: vp8l_header_def vp8l_header_bits_def le_bytes_def upt_rec)
  moreover have "VP8LGetInfo (vp8l_header 1 1 0 @ []) = Some (1, 1, 0)"
    by (rule VP8LGetInfo_roundtrip) simp_all
  ultimately have g: "VP8LGetInfo [0x2f, 0, 0, 0, 0] = Some (1, 1, 0)" by simp
  from VP8LGetInfo_sound [OF g] g show ?thesis by simp
qed


text \<open>A stream of zero bytes reads as zeros.\<close>

lemma bits_at_zero: "(\<forall>b \<in> set data. b = 0) \<Longrightarrow> bits_at data p n = 0"
proof (induction n arbitrary: p)
  case (Suc n)
  have "\<not> stream_bit data p"
  proof
    assume sb: "stream_bit data p"
    then have "data ! (p div 8) \<in> set data" by (simp add: stream_bit_def)
    then have "data ! (p div 8) = 0" using Suc.prems by blast
    with sb show False by (simp add: stream_bit_def)
  qed
  then show ?case by (simp add: Suc.IH Suc.prems)
qed simp

lemma VP8LPrefetchBits_zero: "(\<forall>b \<in> set (br_buf br). b = 0) \<Longrightarrow> VP8LPrefetchBits br = 0"
  by (simp add: VP8LPrefetchBits_def bits_at_zero)

end
