(* ===== verification/Codes.thy ===== *)
theory Codes
  imports BitReader
begin

text \<open>
  The LZ77 prefix codes of vp8l.cpp: \<open>GetCopyDistance\<close> and \<open>GetCopyLength\<close> (lines
  148--163) turn a length or distance symbol and its extra bits into a value, and
  \<open>PlaneCodeToDistance\<close> (lines 165--175) maps a distance code to a linear distance in
  the raster through the 120-entry table \<open>kCodeToPlane\<close> (lines 62--76).  The theory
  proves that every value has an encoding the decoder reads back, that a distance is
  never below 1, and that the 120 plane codes name distinct distances in any image at
  least 16 pixels wide.
\<close>

abbreviation NUM_LITERAL_CODES :: nat where "NUM_LITERAL_CODES \<equiv> 256"
abbreviation NUM_LENGTH_CODES :: nat where "NUM_LENGTH_CODES \<equiv> 24"
abbreviation NUM_DISTANCE_CODES :: nat where "NUM_DISTANCE_CODES \<equiv> 40"
abbreviation CODE_TO_PLANE_CODES :: nat where "CODE_TO_PLANE_CODES \<equiv> 120"

definition kCodeToPlane :: "nat list" where
  "kCodeToPlane = [
    0x18, 0x07, 0x17, 0x19, 0x28, 0x06, 0x27, 0x29, 0x16, 0x1a,
    0x26, 0x2a, 0x38, 0x05, 0x37, 0x39, 0x15, 0x1b, 0x36, 0x3a,
    0x25, 0x2b, 0x48, 0x04, 0x47, 0x49, 0x14, 0x1c, 0x35, 0x3b,
    0x46, 0x4a, 0x24, 0x2c, 0x58, 0x45, 0x4b, 0x34, 0x3c, 0x03,
    0x57, 0x59, 0x13, 0x1d, 0x56, 0x5a, 0x23, 0x2d, 0x44, 0x4c,
    0x55, 0x5b, 0x33, 0x3d, 0x68, 0x02, 0x67, 0x69, 0x12, 0x1e,
    0x66, 0x6a, 0x22, 0x2e, 0x54, 0x5c, 0x43, 0x4d, 0x65, 0x6b,
    0x32, 0x3e, 0x78, 0x01, 0x77, 0x79, 0x53, 0x5d, 0x11, 0x1f,
    0x64, 0x6c, 0x42, 0x4e, 0x76, 0x7a, 0x21, 0x2f, 0x75, 0x7b,
    0x31, 0x3f, 0x63, 0x6d, 0x52, 0x5e, 0x00, 0x74, 0x7c, 0x41,
    0x4f, 0x10, 0x20, 0x62, 0x6e, 0x30, 0x73, 0x7d, 0x51, 0x5f,
    0x40, 0x72, 0x7e, 0x61, 0x6f, 0x50, 0x71, 0x7f, 0x60, 0x70]"

text \<open>
  Symbols below 4 stand for themselves plus one; a larger symbol \<open>k\<close> reads
  \<open>(k - 2) >> 1\<close> extra bits on top of the offset \<open>(2 + (k & 1)) << extra_bits\<close>.
\<close>

definition GetCopyDistance :: "nat \<Rightarrow> bit_reader \<Rightarrow> nat \<times> bit_reader" where
  "GetCopyDistance distance_symbol br =
     (if distance_symbol < 4 then (distance_symbol + 1, br)
      else let extra_bits = (distance_symbol - 2) div 2;
               offset = (2 + distance_symbol mod 2) * 2 ^ extra_bits;
               (v, br') = VP8LReadBits br extra_bits
           in (offset + v + 1, br'))"

definition GetCopyLength :: "nat \<Rightarrow> bit_reader \<Rightarrow> nat \<times> bit_reader" where
  "GetCopyLength length_symbol br = GetCopyDistance length_symbol br"

text \<open>
  The C function computes in \<open>int\<close>: \<open>xoffset\<close> may be negative, and a distance below
  1 is raised to 1.  Its callers pass \<open>plane_code \<ge> 1\<close>, which \<open>GetCopyDistance\<close>
  guarantees.
\<close>

definition PlaneCodeToDistance :: "nat \<Rightarrow> nat \<Rightarrow> nat" where
  "PlaneCodeToDistance xsize plane_code =
     (if plane_code > CODE_TO_PLANE_CODES then plane_code - CODE_TO_PLANE_CODES
      else let dist_code = kCodeToPlane ! (plane_code - 1);
               yoffset = dist_code div 16;
               xoffset = 8 - int (dist_code mod 16);
               dist = int yoffset * int xsize + xoffset
           in if dist \<ge> 1 then nat dist else 1)"

subsection \<open>An encoder for the prefix code\<close>

text \<open>
  The encoder side (the VP8L encoder's prefix coding, not part of the decoder): the
  index of the highest set bit, and the symbol, extra-bit count and extra bits of a
  value \<open>d \<ge> 1\<close>.
\<close>

fun highest_bit :: "nat \<Rightarrow> nat" where
  "highest_bit n = (if n \<le> 1 then 0 else Suc (highest_bit (n div 2)))"

definition prefix_encode :: "nat \<Rightarrow> nat \<times> nat \<times> nat" where
  "prefix_encode d =
     (let v = d - 1 in
      if v < 4 then (v, 0, 0)
      else let h = highest_bit v; second = v div 2 ^ (h - 1) mod 2
           in (2 * h + second, h - 1, v mod 2 ^ (h - 1)))"

subsection \<open>Lemmas\<close>

declare highest_bit.simps [simp del]

lemma highest_bit_bounds: "1 \<le> n \<Longrightarrow> 2 ^ highest_bit n \<le> n \<and> n < 2 ^ Suc (highest_bit n)"
proof (induction n rule: highest_bit.induct)
  case (1 n)
  show ?case
  proof (cases "n \<le> 1")
    case True
    with "1.prems" show ?thesis by (simp add: highest_bit.simps)
  next
    case False
    then have "2 ^ highest_bit (n div 2) \<le> n div 2 \<and> n div 2 < 2 ^ Suc (highest_bit (n div 2))"
      using "1.IH" by simp
    with False show ?thesis
      by (subst (1 2) highest_bit.simps) auto
  qed
qed

lemma GetCopyDistance_small: "s < 4 \<Longrightarrow> GetCopyDistance s br = (s + 1, br)"
  by (simp add: GetCopyDistance_def)

lemma GetCopyDistance_large:
  "4 \<le> s \<Longrightarrow> GetCopyDistance s br =
     ((2 + s mod 2) * 2 ^ ((s - 2) div 2) + fst (VP8LReadBits br ((s - 2) div 2)) + 1,
      snd (VP8LReadBits br ((s - 2) div 2)))"
  by (simp add: GetCopyDistance_def Let_def split: prod.split)

text \<open>Every decoded length and distance is at least 1; the decode loop relies on it.\<close>

lemma GetCopyDistance_pos: "1 \<le> fst (GetCopyDistance s br)"
  by (simp add: GetCopyDistance_def Let_def split: prod.split)

lemma GetCopyLength_pos: "1 \<le> fst (GetCopyLength s br)"
  unfolding GetCopyLength_def by (rule GetCopyDistance_pos)

lemma GetCopyDistance_buf [simp]: "br_buf (snd (GetCopyDistance s br)) = br_buf br"
  by (cases "s < 4") (simp_all add: GetCopyDistance_small GetCopyDistance_large)

lemma GetCopyLength_buf [simp]: "br_buf (snd (GetCopyLength s br)) = br_buf br"
  by (simp add: GetCopyLength_def)

lemma GetCopyDistance_eos_mono: "br_eos br \<Longrightarrow> br_eos (snd (GetCopyDistance s br))"
  by (cases "s < 4") (simp_all add: GetCopyDistance_small GetCopyDistance_large
      VP8LReadBits_eos_mono)

lemma PlaneCodeToDistance_pos: "1 \<le> PlaneCodeToDistance xsize plane_code"
  unfolding PlaneCodeToDistance_def Let_def by (auto split: if_split)

lemma PlaneCodeToDistance_far:
  "CODE_TO_PLANE_CODES < c \<Longrightarrow> PlaneCodeToDistance xsize c = c - CODE_TO_PLANE_CODES"
  by (simp add: PlaneCodeToDistance_def)

lemma kCodeToPlane_length: "length kCodeToPlane = CODE_TO_PLANE_CODES"
  by (simp add: kCodeToPlane_def)

lemma kCodeToPlane_distinct: "distinct kCodeToPlane"
  by (simp add: kCodeToPlane_def)

text \<open>Each table entry packs an \<open>(y, x)\<close> offset with \<open>x \<le> 7\<close> on the current row.\<close>

lemma kCodeToPlane_row0: "c \<in> set kCodeToPlane \<Longrightarrow> c div 16 = 0 \<Longrightarrow> c mod 16 \<le> 7"
  by (auto simp: kCodeToPlane_def)

lemma plane_offsets_inj:
  fixes y y' x x' :: nat and W :: int
  assumes "x < 16" "x' < 16" "16 \<le> W"
    and eq: "int y * W + (8 - int x) = int y' * W + (8 - int x')"
  shows "y = y' \<and> x = x'"
proof -
  have "y = y'"
  proof (rule ccontr)
    assume "y \<noteq> y'"
    then consider "y < y'" | "y' < y" by linarith
    then show False
    proof cases
      case 1
      then have "(int y + 1) * W \<le> int y' * W"
        using assms(3) by (intro mult_right_mono) simp_all
      with eq assms(1-3) show False by (simp add: algebra_simps)
    next
      case 2
      then have "(int y' + 1) * W \<le> int y * W"
        using assms(3) by (intro mult_right_mono) simp_all
      with eq assms(1-3) show False by (simp add: algebra_simps)
    qed
  qed
  with eq show ?thesis by simp
qed

lemma div_pow_two_cases:
  assumes "2 ^ h \<le> (v::nat)" "v < 2 ^ Suc h" "1 \<le> h"
  shows "v div 2 ^ (h - 1) = 2 + v div 2 ^ (h - 1) mod 2"
proof -
  from assms(3) obtain m where m: "h = Suc m" by (cases h) auto
  have p: "(2::nat) ^ h = 2 * 2 ^ (h - 1)" and p': "(2::nat) ^ Suc h = 4 * 2 ^ (h - 1)"
    using m by simp_all
  define q where "q = v div 2 ^ (h - 1)"
  have "2 \<le> q"
    using assms(1) p by (simp add: q_def less_eq_div_iff_mult_less_eq)
  moreover have "q < 4"
    using assms(2) p' by (simp add: q_def div_less_iff_less_mult)
  ultimately have "q = 2 + q mod 2" by presburger
  then show ?thesis by (simp add: q_def)
qed

lemma prefix_symbol_halves:
  "2 \<le> h \<Longrightarrow> r < 2 \<Longrightarrow> (2 * h + r - 2) div 2 = h - 1 \<and> (2 * h + r) mod 2 = (r::nat)"
  by presburger

text \<open>The value of a large symbol with its extra bits, once the bits are read.\<close>

lemma prefix_encode_large:
  assumes "4 \<le> d - 1"
  defines "h \<equiv> highest_bit (d - 1)"
  shows "prefix_encode d = (2 * h + (d - 1) div 2 ^ (h - 1) mod 2, h - 1, (d - 1) mod 2 ^ (h - 1))"
    and "2 \<le> h" and "2 ^ h \<le> d - 1" and "d - 1 < 2 ^ Suc h"
proof -
  show "prefix_encode d = (2 * h + (d - 1) div 2 ^ (h - 1) mod 2, h - 1, (d - 1) mod 2 ^ (h - 1))"
    using assms(1) by (simp add: prefix_encode_def h_def Let_def)
  have b: "2 ^ h \<le> d - 1 \<and> d - 1 < 2 ^ Suc h"
    unfolding h_def using assms(1) by (intro highest_bit_bounds) simp
  then show "2 ^ h \<le> d - 1" and "d - 1 < 2 ^ Suc h" by simp_all
  show "2 \<le> h"
  proof (rule ccontr)
    assume "\<not> 2 \<le> h"
    then have "(2::nat) ^ Suc h \<le> 2 ^ 2" by (intro power_increasing) simp_all
    with b assms(1) show False by simp
  qed
qed

subsection \<open>Properties of the prefix codes\<close>

text \<open>
  C3. Prefix-code round trip: every distance \<open>d\<close> in 1..2^20 has a symbol of the 40-symbol
  distance alphabet and extra bits that fit their width, and \<open>GetCopyDistance\<close> reading
  that symbol and those extra bits returns \<open>d\<close> (\<open>GetCopyLength\<close> is the same function).
\<close>

theorem GetCopyDistance_prefix_roundtrip:
  assumes "1 \<le> d" and "d \<le> 2 ^ 20" and enc: "prefix_encode d = (k, nb, e)"
    and rd: "fst (VP8LReadBits br nb) = e"
  shows "k < NUM_DISTANCE_CODES \<and> e < 2 ^ nb \<and> fst (GetCopyDistance k br) = d"
proof (cases "d - 1 < 4")
  case True
  with enc have "k = d - 1" and "nb = 0" and "e = 0"
    by (simp_all add: prefix_encode_def)
  with True assms(1) show ?thesis by (simp add: GetCopyDistance_small)
next
  case False
  let ?h = "highest_bit (d - 1)"
  let ?q = "(d - 1) div 2 ^ (?h - 1)"
  note L = prefix_encode_large [of d]
  from False L(1) enc have k: "k = 2 * ?h + ?q mod 2" and nb: "nb = ?h - 1"
    and e: "e = (d - 1) mod 2 ^ (?h - 1)"
    by simp_all
  from False have h2: "2 \<le> ?h" and lo: "2 ^ ?h \<le> d - 1" and hi: "d - 1 < 2 ^ Suc ?h"
    using L(2-4) by simp_all
  have q: "?q = 2 + ?q mod 2"
    using lo hi h2 by (intro div_pow_two_cases) simp_all
  have s4: "4 \<le> k" using k h2 by simp
  have "(k - 2) div 2 = ?h - 1" and "k mod 2 = ?q mod 2"
    using k prefix_symbol_halves [OF h2, of "?q mod 2"] by simp_all
  then have "fst (GetCopyDistance k br) = (2 + ?q mod 2) * 2 ^ (?h - 1) + e + 1"
    using s4 rd nb by (simp add: GetCopyDistance_large)
  also have "(2 + ?q mod 2) * 2 ^ (?h - 1) + e = d - 1"
    using q e by (metis div_mult_mod_eq)
  finally have val: "fst (GetCopyDistance k br) = d" using assms(1) by simp
  have "?h < 20"
  proof (rule ccontr)
    assume "\<not> ?h < 20"
    then have "(2::nat) ^ 20 \<le> 2 ^ ?h" by (intro power_increasing) simp_all
    with lo assms(2) show False by simp
  qed
  moreover have "?q mod 2 < 2" by simp
  ultimately have "k < NUM_DISTANCE_CODES" using k by linarith
  moreover have "e < 2 ^ nb" using e nb by simp
  ultimately show ?thesis using val by simp
qed

theorem GetCopyDistance_prefix_roundtrip_witness:
  "prefix_encode 7 = (5, 1, 0) \<and> fst (VP8LReadBits (VP8LInitBitReader [0]) 1) = 0 \<and>
   fst (GetCopyDistance 5 (VP8LInitBitReader [0])) = 7"
proof -
  have enc: "prefix_encode 7 = (5, 1, 0)"
    by (simp add: prefix_encode_def Let_def highest_bit.simps)
  have rd: "fst (VP8LReadBits (VP8LInitBitReader [0]) 1) = 0"
    by (simp add: VP8LReadBits_def VP8LInitBitReader_def stream_bit_def)
  from GetCopyDistance_prefix_roundtrip [OF _ _ enc rd] enc rd show ?thesis by simp
qed

lemma PlaneCodeToDistance_near:
  assumes "1 \<le> c" "c \<le> CODE_TO_PLANE_CODES" "16 \<le> xsize"
  defines "k \<equiv> kCodeToPlane ! (c - 1)"
  shows "int (PlaneCodeToDistance xsize c) = int (k div 16) * int xsize + (8 - int (k mod 16))"
proof -
  have k_in: "k \<in> set kCodeToPlane"
    using assms(1,2) by (simp add: k_def kCodeToPlane_length)
  have "1 \<le> int (k div 16) * int xsize + (8 - int (k mod 16))"
  proof (cases "k div 16 = 0")
    case True
    with kCodeToPlane_row0 [OF k_in] show ?thesis by simp
  next
    case False
    then have "int xsize \<le> int (k div 16) * int xsize"
      by (simp add: mult_le_cancel_right1)
    moreover have "k mod 16 < 16" by simp
    ultimately show ?thesis using assms(3) by linarith
  qed
  with assms(2) show ?thesis
    by (simp add: PlaneCodeToDistance_def k_def Let_def)
qed

text \<open>
  C4. In an image at least 16 pixels wide the 120 plane codes of \<open>PlaneCodeToDistance\<close>
  are 120 different linear distances: no two codes of the table name the same pixel.
\<close>

theorem PlaneCodeToDistance_inj:
  "16 \<le> xsize \<Longrightarrow> inj_on (PlaneCodeToDistance xsize) {1..CODE_TO_PLANE_CODES}"
proof (rule inj_onI)
  fix c c' assume W: "16 \<le> xsize" and c: "c \<in> {1..CODE_TO_PLANE_CODES}"
    and c': "c' \<in> {1..CODE_TO_PLANE_CODES}"
    and eq: "PlaneCodeToDistance xsize c = PlaneCodeToDistance xsize c'"
  let ?k = "kCodeToPlane ! (c - 1)" and ?k' = "kCodeToPlane ! (c' - 1)"
  have "int (?k div 16) * int xsize + (8 - int (?k mod 16))
      = int (?k' div 16) * int xsize + (8 - int (?k' mod 16))"
    using PlaneCodeToDistance_near [of c xsize] PlaneCodeToDistance_near [of c' xsize] c c' W eq
    by simp
  then have "?k div 16 = ?k' div 16 \<and> ?k mod 16 = ?k' mod 16"
    using W by (intro plane_offsets_inj) simp_all
  then have "?k = ?k'" by (metis div_mult_mod_eq)
  moreover have "c - 1 < length kCodeToPlane" and "c' - 1 < length kCodeToPlane"
    using c c' by (auto simp: kCodeToPlane_length)
  ultimately have "c - 1 = c' - 1"
    using kCodeToPlane_distinct by (simp add: nth_eq_iff_index_eq)
  moreover have "1 \<le> c" and "1 \<le> c'" using c c' by simp_all
  ultimately show "c = c'" by arith
qed

theorem PlaneCodeToDistance_inj_witness:
  "(16::nat) \<le> 16 \<and> PlaneCodeToDistance 16 1 \<noteq> PlaneCodeToDistance 16 2"
proof -
  have "inj_on (PlaneCodeToDistance 16) {1..CODE_TO_PLANE_CODES}"
    by (rule PlaneCodeToDistance_inj) simp
  then have "PlaneCodeToDistance 16 1 \<noteq> PlaneCodeToDistance 16 2"
    by (auto dest: inj_onD)
  then show ?thesis by simp
qed

end
