(* ===== verification/CopyBlock.thy ===== *)
theory CopyBlock
  imports Prelude
begin

text \<open>
  The back-reference copy of the entropy decoder (vp8l.cpp, lines 766--880).
  \<open>CopyBlock32b\<close> copies \<open>length\<close> pixels from \<open>dist\<close> pixels behind the destination; for
  \<open>dist \<le> 2\<close> it builds a 64-bit pattern of the pixels to repeat and stores it two
  pixels at a time (\<open>CopySmallPattern32b\<close>), after one single-pixel step when the
  destination is not 8-byte aligned.  Memory is a list of pixels and the destination an
  index into it; the destination's byte address \<open>addr\<close> is a separate argument, since
  only its alignment decides the path.  64-bit stores are little-endian (the
  \<open>WORDS_BIGENDIAN\<close> variant is not modelled).  The theory proves that every path
  equals the forward element loop \<open>copy_fwd\<close>, so the copy repeats the last \<open>dist\<close> pixels.
\<close>

subsection \<open>The 32-bit copy\<close>

text \<open>\<open>((uint64_t*)dst)[0] = pattern\<close>: low half to the first pixel.\<close>

definition store64 :: "u32 list \<Rightarrow> nat \<Rightarrow> u64 \<Rightarrow> u32 list" where
  "store64 mem k p = mem[k := ucast p, Suc k := ucast (drop_bit 32 p)]"

text \<open>\<open>for (i = 0; i < (length >> 1); ++i) ((uint64_t*)dst)[i] = pattern;\<close>\<close>

fun fill_pattern64 :: "u32 list \<Rightarrow> nat \<Rightarrow> u64 \<Rightarrow> nat \<Rightarrow> u32 list" where
  "fill_pattern64 mem d p 0 = mem"
| "fill_pattern64 mem d p (Suc n) = fill_pattern64 (store64 mem d p) (d + 2) p n"

text \<open>\<open>(pattern >> 32) | (pattern << 32)\<close>\<close>

definition rotate_pattern64 :: "u64 \<Rightarrow> u64" where
  "rotate_pattern64 p = drop_bit 32 p OR push_bit 32 p"

definition CopySmallPattern32b :: "nat \<Rightarrow> u32 list \<Rightarrow> nat \<Rightarrow> nat \<Rightarrow> nat \<Rightarrow> u64 \<Rightarrow> u32 list" where
  "CopySmallPattern32b addr mem s d len pattern =
     (let (mem, s, d, len, pattern) =
          (if addr AND 4 \<noteq> 0
           then (mem[d := mem ! s], Suc s, Suc d, len - 1, rotate_pattern64 pattern)
           else (mem, s, d, len, pattern));
          mem = fill_pattern64 mem d pattern (len div 2)
      in if odd len
         then mem[d + 2 * (len div 2) := mem ! (s + 2 * (len div 2))]
         else mem)"

text \<open>
  \<open>len\<close> is the C parameter \<open>length\<close>.  \<open>dist = 1\<close>: the pixel twice; \<open>dist = 2\<close>: \<open>memcpy(&pattern, src, 8)\<close>, the two pixels
  in memory order.  The \<open>memcpy\<close> branch is taken when the ranges do not overlap.
\<close>

definition CopyBlock32b :: "nat \<Rightarrow> u32 list \<Rightarrow> nat \<Rightarrow> nat \<Rightarrow> nat \<Rightarrow> u32 list" where
  "CopyBlock32b addr mem d dist len =
     (let s = d - dist in
      if dist \<le> 2 \<and> len \<ge> 4 \<and> addr AND 3 = 0 then
        let pattern =
              (if dist = 1 then let p = (ucast (mem ! s) :: u64) in p OR push_bit 32 p
               else ucast (mem ! s) OR push_bit 32 (ucast (mem ! Suc s)))
        in CopySmallPattern32b addr mem s d len pattern
      else if dist \<ge> len then mem_copy mem d s len
      else copy_fwd mem d s len)"

subsection \<open>Words\<close>

lemma ucast_pattern_lo:
  fixes a b :: u32
  shows "(ucast (ucast a OR push_bit 32 (ucast b :: u64)) :: u32) = a"
  by (rule bit_word_eqI) (auto simp: bit_simps)

lemma ucast_pattern_hi:
  fixes a b :: u32
  shows "(ucast (drop_bit 32 (ucast a OR push_bit 32 (ucast b :: u64))) :: u32) = b"
  by (rule bit_word_eqI) (auto simp: bit_simps dest: bit_imp_le_length)

lemma ucast_rotate_lo:
  "(ucast (rotate_pattern64 p) :: u32) = ucast (drop_bit 32 p)"
  unfolding rotate_pattern64_def by (rule bit_word_eqI) (auto simp: bit_simps)

lemma ucast_rotate_hi:
  "(ucast (drop_bit 32 (rotate_pattern64 p)) :: u32) = ucast p"
  unfolding rotate_pattern64_def by (rule bit_word_eqI) (auto simp: bit_simps)

subsection \<open>The pattern store\<close>

lemma length_fill_pattern64 [simp]: "length (fill_pattern64 mem d p n) = length mem"
  by (induction mem d p n rule: fill_pattern64.induct) (simp_all add: store64_def)

lemma fill_pattern64_nth [vp8l_nth]:
  "d + 2 * n \<le> length mem \<Longrightarrow>
   fill_pattern64 mem d p n ! k =
     (if d \<le> k \<and> k < d + 2 * n
      then (if even (k - d) then ucast p else ucast (drop_bit 32 p)) else mem ! k)"
proof (induction mem d p n arbitrary: k rule: fill_pattern64.induct)
  case (1 mem d p)
  then show ?case by auto
next
  case (2 mem d p n)
  have len: "d + 2 + 2 * n \<le> length (store64 mem d p)"
    using "2.prems" by (simp add: store64_def)
  show ?case
    using "2.IH" [OF len, of k] "2.prems"
    by (auto simp: store64_def nth_list_update)
qed

text \<open>
  The pattern loop and the left-over pixel reproduce a target \<open>T\<close> on the range
  \<open>[d, e)\<close>, given: the memory already agrees with \<open>T\<close> outside the range, the pattern
  holds \<open>T\<close>'s first two pixels of the range, \<open>T\<close> repeats with period 2 on the range and
  with period \<open>D\<close> reaching back \<open>D\<close> pixels, where the left-over pixel is read
  (\<open>0 < D \<le> d\<close>: the source lies strictly behind the destination).
\<close>

lemma pattern_fill_correct:
  assumes agree: "\<And>k. k < length m \<Longrightarrow> \<not> (d \<le> k \<and> k < d + L) \<Longrightarrow> m ! k = T ! k"
    and len: "length m = length T" "d + L \<le> length T"
    and per2: "\<And>k. d \<le> k \<Longrightarrow> k + 2 < d + L \<Longrightarrow> T ! (k + 2) = T ! k"
    and perD: "\<And>k. d \<le> k \<Longrightarrow> k < d + L \<Longrightarrow> D \<le> k \<and> T ! (k - D) = T ! k"
    and lo: "ucast p = T ! d" and hi: "2 \<le> L \<Longrightarrow> ucast (drop_bit 32 p) = T ! Suc d"
    and D: "0 < D" "D \<le> d"
  shows "(let m2 = fill_pattern64 m d p (L div 2)
          in if odd L then m2[d + 2 * (L div 2) := m2 ! (d - D + 2 * (L div 2))] else m2) = T"
proof -
  let ?q = "L div 2"
  let ?m2 = "fill_pattern64 m d p ?q"
  have q2: "2 * ?q \<le> L" by presburger
  have len2: "d + 2 * ?q \<le> length m" using len q2 by simp
  have fill: "?m2 ! k = T ! k" if "k < length m" "\<not> (odd L \<and> k = d + 2 * ?q)" for k
  proof (cases "d \<le> k \<and> k < d + 2 * ?q")
    case True
    then have in_run: "d + (k - d) < d + L" using q2 by arith
    have "T ! k = T ! (d + (k - d) mod 2)"
      using periodic_nth [of d 2 "d + L" T "k - d", OF per2 _ in_run] True by simp
    moreover have "2 \<le> L" using True q2 by arith
    ultimately show ?thesis
      using True len2 lo hi by (simp add: fill_pattern64_nth mod2_eq_if)
  next
    case False
    then have "\<not> (d \<le> k \<and> k < d + L)" using that(2) by auto
    moreover have "?m2 ! k = m ! k"
      by (simp only: fill_pattern64_nth [OF len2] if_not_P [OF False])
    ultimately show ?thesis using that(1) agree by simp
  qed
  show ?thesis
  proof (cases "odd L")
    case False
    then show ?thesis
      using fill len by (intro nth_equalityI) simp_all
  next
    case True
    let ?t = "d + 2 * ?q"
    have t_run: "d \<le> ?t" "?t < d + L"
      using True by (simp, presburger)
    with perD have DT: "D \<le> ?t" and rd: "T ! (?t - D) = T ! ?t" by simp_all
    have src: "?m2 ! (d - D + 2 * ?q) = T ! ?t"
    proof -
      have "d - D + 2 * ?q = ?t - D" using D by simp
      moreover have "?t - D < length m" using t_run len by simp
      moreover have "?t - D \<noteq> ?t" using D by arith
      then have "\<not> (odd L \<and> ?t - D = ?t)" by simp
      ultimately show ?thesis using fill [of "?t - D"] rd by simp
    qed
    show ?thesis
      using True src fill len t_run
      by (intro nth_equalityI) (auto simp: Let_def nth_list_update)
  qed
qed

subsection \<open>The run a back-reference writes\<close>

text \<open>With \<open>D \<le> 2\<close> the run also repeats every two pixels.\<close>

lemma copy_fwd_period2:
  assumes "D = 1 \<or> D = 2" "D \<le> d" "d + L \<le> length mem" "d \<le> k" "k + 2 < d + L"
  shows "copy_fwd mem d (d - D) L ! (k + 2) = copy_fwd mem d (d - D) L ! k"
proof -
  have "(k + 2 - d) mod D = (k - d) mod D"
    using assms(1,4) by (auto simp: mod2_eq_if)
  moreover have "0 < D" using assms(1) by auto
  ultimately show ?thesis using assms(2-5) by (simp add: copy_fwd_nth)
qed

lemma length_CopySmallPattern32b [simp]:
  "length (CopySmallPattern32b addr mem s d len p) = length mem"
  by (simp add: CopySmallPattern32b_def Let_def store64_def)

lemma length_CopyBlock32b [simp]: "length (CopyBlock32b addr mem d dist len) = length mem"
  by (simp add: CopyBlock32b_def Let_def)

lemma CopySmallPattern32b_unfold:
  "CopySmallPattern32b addr mem s d len p =
     (if addr AND 4 \<noteq> 0
      then (let m2 = fill_pattern64 (mem[d := mem ! s]) (Suc d) (rotate_pattern64 p) ((len - 1) div 2)
            in if odd (len - 1)
               then m2[Suc d + 2 * ((len - 1) div 2) := m2 ! (Suc s + 2 * ((len - 1) div 2))]
               else m2)
      else (let m2 = fill_pattern64 mem d p (len div 2)
            in if odd len then m2[d + 2 * (len div 2) := m2 ! (s + 2 * (len div 2))] else m2))"
  by (simp add: CopySmallPattern32b_def Let_def)

text \<open>
  The pattern path, for a pattern holding the first two pixels of the run: after the
  optional alignment step, the remaining run starts at \<open>d\<close> or \<open>d + 1\<close> and
  \<open>pattern_fill_correct\<close> applies.
\<close>

lemma CopySmallPattern32b_correct:
  assumes D: "D = 1 \<or> D = 2" "D \<le> d" and len: "4 \<le> L" "d + L \<le> length mem"
    and lo: "ucast p = copy_fwd mem d (d - D) L ! d"
    and hi: "ucast (drop_bit 32 p) = copy_fwd mem d (d - D) L ! Suc d"
  shows "CopySmallPattern32b addr mem (d - D) d L p = copy_fwd mem d (d - D) L"
proof -
  let ?T = "copy_fwd mem d (d - D) L"
  have D0: "0 < D" using D(1) by auto
  have per2: "\<And>k. d \<le> k \<Longrightarrow> k + 2 < d + L \<Longrightarrow> ?T ! (k + 2) = ?T ! k"
    using D len(2) by (intro copy_fwd_period2) simp_all
  have perD: "D \<le> k \<and> ?T ! (k - D) = ?T ! k" if k: "d \<le> k" "k < d + L" for k
    using copy_fwd_period [OF D0 D(2) len(2) k] k D(2) by simp
  have out: "\<And>k. \<not> (d \<le> k \<and> k < d + L) \<Longrightarrow> ?T ! k = mem ! k"
    by (rule copy_fwd_outside)
  show ?thesis
  proof (cases "addr AND 4 \<noteq> 0")
    case True
    let ?m = "mem[d := mem ! (d - D)]"
    have "?T ! d = mem ! (d - D)"
      using D0 D(2) len by (simp add: copy_fwd_nth)
    then have agree: "\<And>k. k < length ?m \<Longrightarrow> \<not> (Suc d \<le> k \<and> k < Suc d + (L - 1)) \<Longrightarrow> ?m ! k = ?T ! k"
      using out len by (auto simp: nth_list_update)
    have lo': "ucast (rotate_pattern64 p) = ?T ! Suc d"
      using hi by (simp add: ucast_rotate_lo)
    have hi': "ucast (drop_bit 32 (rotate_pattern64 p)) = ?T ! Suc (Suc d)"
      using lo per2 [of d] len by (simp add: ucast_rotate_hi)
    have "CopySmallPattern32b addr mem (d - D) d L p =
      (let m2 = fill_pattern64 ?m (Suc d) (rotate_pattern64 p) ((L - 1) div 2)
       in if odd (L - 1) then m2[Suc d + 2 * ((L - 1) div 2) := m2 ! (Suc d - D + 2 * ((L - 1) div 2))]
          else m2)"
      using True D(2) by (simp add: CopySmallPattern32b_unfold Let_def Suc_diff_le)
    also have "\<dots> = ?T"
    proof (rule pattern_fill_correct)
      show "\<And>k. k < length ?m \<Longrightarrow> \<not> (Suc d \<le> k \<and> k < Suc d + (L - 1)) \<Longrightarrow> ?m ! k = ?T ! k"
        by (rule agree)
      show "length ?m = length ?T" by simp
      show "Suc d + (L - 1) \<le> length ?T" using len by simp
      show "\<And>k. Suc d \<le> k \<Longrightarrow> k + 2 < Suc d + (L - 1) \<Longrightarrow> ?T ! (k + 2) = ?T ! k"
        using per2 len by simp
      show "\<And>k. Suc d \<le> k \<Longrightarrow> k < Suc d + (L - 1) \<Longrightarrow> D \<le> k \<and> ?T ! (k - D) = ?T ! k"
        using perD len by simp
      show "ucast (rotate_pattern64 p) = ?T ! Suc d" by (rule lo')
      show "2 \<le> L - 1 \<Longrightarrow> ucast (drop_bit 32 (rotate_pattern64 p)) = ?T ! Suc (Suc d)"
        using hi' by simp
      show "0 < D" "D \<le> Suc d" using D0 D(2) by simp_all
    qed
    finally show ?thesis .
  next
    case False
    then have "CopySmallPattern32b addr mem (d - D) d L p =
      (let m2 = fill_pattern64 mem d p (L div 2)
       in if odd L then m2[d + 2 * (L div 2) := m2 ! (d - D + 2 * (L div 2))] else m2)"
      by (simp add: CopySmallPattern32b_unfold)
    also have "\<dots> = ?T"
    proof (rule pattern_fill_correct)
      show "\<And>k. k < length mem \<Longrightarrow> \<not> (d \<le> k \<and> k < d + L) \<Longrightarrow> mem ! k = ?T ! k"
        using out by simp
      show "length mem = length ?T" by simp
      show "d + L \<le> length ?T" using len by simp
      show "\<And>k. d \<le> k \<Longrightarrow> k + 2 < d + L \<Longrightarrow> ?T ! (k + 2) = ?T ! k" by (rule per2)
      show "\<And>k. d \<le> k \<Longrightarrow> k < d + L \<Longrightarrow> D \<le> k \<and> ?T ! (k - D) = ?T ! k" by (rule perD)
      show "ucast p = ?T ! d" by (rule lo)
      show "2 \<le> L \<Longrightarrow> ucast (drop_bit 32 p) = ?T ! Suc d" using hi by simp
      show "0 < D" "D \<le> d" using D0 D(2) by simp_all
    qed
    finally show ?thesis .
  qed
qed

subsection \<open>Properties of the 32-bit copy\<close>

lemma ucast_pattern_dist1:
  fixes x :: u32
  shows "(ucast (let p = (ucast x :: u64) in p OR push_bit 32 p) :: u32) = x"
    and "(ucast (drop_bit 32 (let p = (ucast x :: u64) in p OR push_bit 32 p)) :: u32) = x"
  using ucast_pattern_lo [of x x] ucast_pattern_hi [of x x] by (simp_all add: Let_def)

lemma CopyBlock32b_copy_fwd:
  assumes "0 < dist" "dist \<le> d" "d + len \<le> length mem"
  shows "CopyBlock32b addr mem d dist len = copy_fwd mem d (d - dist) len"
proof (cases "dist \<le> 2 \<and> len \<ge> 4 \<and> addr AND 3 = 0")
  case True
  let ?T = "copy_fwd mem d (d - dist) len"
  have D: "dist = 1 \<or> dist = 2" using True assms(1) by auto
  have T0: "?T ! d = mem ! (d - dist)"
    using assms True by (simp add: copy_fwd_nth)
  have T1: "?T ! Suc d = mem ! (d - dist + 1 mod dist)"
    using assms True by (simp add: copy_fwd_nth)
  show ?thesis
  proof (cases "dist = 1")
    case True
    with \<open>dist \<le> 2 \<and> len \<ge> 4 \<and> addr AND 3 = 0\<close> show ?thesis
      using CopySmallPattern32b_correct [of 1 d len mem] assms T0 T1
      by (simp add: CopyBlock32b_def ucast_pattern_dist1)
  next
    case False
    with D have d2: "dist = 2" by simp
    let ?p = "ucast (mem ! (d - 2)) OR push_bit 32 (ucast (mem ! Suc (d - 2)) :: u64)"
    have lo: "ucast ?p = mem ! (d - 2)" by (rule ucast_pattern_lo)
    have hi: "ucast (drop_bit 32 ?p) = mem ! Suc (d - 2)" by (rule ucast_pattern_hi)
    have "CopySmallPattern32b addr mem (d - 2) d len ?p = copy_fwd mem d (d - 2) len"
      using assms T0 T1 d2 lo hi \<open>dist \<le> 2 \<and> len \<ge> 4 \<and> addr AND 3 = 0\<close>
      by (intro CopySmallPattern32b_correct) simp_all
    with \<open>dist \<le> 2 \<and> len \<ge> 4 \<and> addr AND 3 = 0\<close> d2 show ?thesis
      by (simp add: CopyBlock32b_def Let_def)
  qed
next
  case nofast: False
  then have "CopyBlock32b addr mem d dist len =
      (if dist \<ge> len then mem_copy mem d (d - dist) len else copy_fwd mem d (d - dist) len)"
    by (simp only: CopyBlock32b_def Let_def if_not_P if_False)
  then show ?thesis using assms by (simp only: copy_fallback_eq)
qed

text \<open>
  C5. Equivalence of the optimised copy: whatever the destination's alignment,
  \<open>CopyBlock32b\<close> (the 64-bit pattern path for distances 1 and 2, \<open>memcpy\<close> without
  overlap, the element loop otherwise) leaves memory exactly as the plain forward
  element loop \<open>for (i = 0; i < length; ++i) dst[i] = src[i]\<close> does, for every
  back-reference the decoder accepts (\<open>1 \<le> dist \<le> pos\<close>, the run inside the buffer).
\<close>

theorem CopyBlock32b_eq_copy_fwd:
  assumes "0 < dist" "dist \<le> d" "d + len \<le> length mem"
  shows "CopyBlock32b addr mem d dist len = copy_fwd mem d (d - dist) len"
  using assms by (rule CopyBlock32b_copy_fwd)

theorem CopyBlock32b_eq_copy_fwd_witness:
  "CopyBlock32b 8 [1, 2, 3, 4, 5, 6, 7, 8 :: u32] 2 2 5 = copy_fwd [1, 2, 3, 4, 5, 6, 7, 8] 2 0 5
   \<and> copy_fwd [1, 2, 3, 4, 5, 6, 7, 8 :: u32] 2 0 5 = [1, 2, 1, 2, 1, 2, 1, 8]"
proof -
  have "CopyBlock32b 8 [1, 2, 3, 4, 5, 6, 7, 8 :: u32] 2 2 5 = copy_fwd [1, 2, 3, 4, 5, 6, 7, 8] 2 (2 - 2) 5"
    by (rule CopyBlock32b_eq_copy_fwd) simp_all
  moreover have "copy_fwd [1, 2, 3, 4, 5, 6, 7, 8 :: u32] 2 0 5 = [1, 2, 1, 2, 1, 2, 1, 8]"
    by (simp add: numeral_eq_Suc)
  ultimately show ?thesis by simp
qed

text \<open>
  C6. Run-length behaviour of a back-reference (spec, section 8, invariant 5): after
  \<open>CopyBlock32b\<close> the \<open>i\<close>-th copied pixel equals the pixel \<open>dist - (i mod dist)\<close>
  places before the destination in the original memory, so a distance shorter than the
  length repeats the last \<open>dist\<close> pixels; memory outside the run is untouched.
\<close>

theorem CopyBlock32b_run_length:
  assumes "0 < dist" "dist \<le> d" "d + len \<le> length mem"
  shows "(\<forall>i < len. CopyBlock32b addr mem d dist len ! (d + i) = mem ! (d - dist + i mod dist))
         \<and> (\<forall>k. \<not> (d \<le> k \<and> k < d + len) \<longrightarrow> CopyBlock32b addr mem d dist len ! k = mem ! k)"
  using assms
  by (simp add: CopyBlock32b_copy_fwd copy_fwd_nth copy_fwd_outside)

theorem CopyBlock32b_run_length_witness:
  "CopyBlock32b 0 [9, 5, 0, 0, 0, 0, 0 :: u32] 2 2 5 ! 6 = 9"
proof -
  have h: "\<forall>i < 5. CopyBlock32b 0 [9, 5, 0, 0, 0, 0, 0 :: u32] 2 2 5 ! (2 + i)
                 = [9, 5, 0, 0, 0, 0, 0 :: u32] ! (2 - 2 + i mod 2)"
    using CopyBlock32b_run_length [of 2 2 5 "[9, 5, 0, 0, 0, 0, 0 :: u32]" 0] by simp
  show ?thesis using spec [OF h, of 4] by simp
qed

end
