(* ===== verification/CopyBlock8.thy ===== *)
theory CopyBlock8
  imports Prelude
begin

text \<open>
  The byte copy of the alpha-plane decoder (vp8l.cpp, lines 766--841, \<open>CopyBlock8b\<close>).
  For distances 1, 2 and 4 and runs of at least 8 bytes it builds a 32-bit pattern of
  the bytes to repeat and stores it four bytes at a time (\<open>CopySmallPattern8b\<close>): first
  byte steps until the destination address is 4-byte aligned, rotating the pattern by
  one byte per step (\<open>Rotate8b\<close>), then the 32-bit stores, then the left-over bytes.
  Memory is a byte list, the destination an index into it and \<open>addr\<close> its address;
  stores and \<open>memcpy\<close> into the pattern are little-endian.  The theory proves that
  every path equals the forward byte loop \<open>copy_fwd\<close>.
\<close>

subsection \<open>Definitions\<close>

text \<open>\<open>((V & 0xffu) << 24) | (V >> 8)\<close>, the little-endian branch.\<close>

definition Rotate8b :: "u32 \<Rightarrow> u32" where
  "Rotate8b V = push_bit 24 (V AND 0xff) OR drop_bit 8 V"

text \<open>Byte \<open>i\<close> of a little-endian 32-bit word in memory.\<close>

definition pbyte :: "u32 \<Rightarrow> nat \<Rightarrow> u8" where
  "pbyte p i = ucast (drop_bit (8 * i) p)"

text \<open>\<open>((uint32_t*)dst)[0] = pattern\<close>\<close>

definition store32 :: "u8 list \<Rightarrow> nat \<Rightarrow> u32 \<Rightarrow> u8 list" where
  "store32 mem k p = mem[k := pbyte p 0, k + 1 := pbyte p 1, k + 2 := pbyte p 2, k + 3 := pbyte p 3]"

text \<open>\<open>for (i = 0; i < (length >> 2); ++i) ((uint32_t*)dst)[i] = pattern;\<close>\<close>

fun fill_pattern32 :: "u8 list \<Rightarrow> nat \<Rightarrow> u32 \<Rightarrow> nat \<Rightarrow> u8 list" where
  "fill_pattern32 mem d p 0 = mem"
| "fill_pattern32 mem d p (Suc n) = fill_pattern32 (store32 mem d p) (d + 4) p n"

text \<open>
  \<open>while ((uintptr_t)dst & 3) { *dst++ = *src++; pattern = Rotate8b(pattern); --length; }\<close>,
  returning the loop's variables.  It ends because the address advances to the next
  multiple of 4.
\<close>

function align_dst8b :: "nat \<Rightarrow> u8 list \<Rightarrow> nat \<Rightarrow> nat \<Rightarrow> nat \<Rightarrow> u32 \<Rightarrow> u8 list \<times> nat \<times> nat \<times> nat \<times> u32" where
  "align_dst8b addr mem s d len pattern =
     (if addr AND 3 \<noteq> 0
      then align_dst8b (Suc addr) (mem[d := mem ! s]) (Suc s) (Suc d) (len - 1) (Rotate8b pattern)
      else (mem, s, d, len, pattern))"
  by pat_completeness auto
termination
  by (relation "measure (\<lambda>(addr, _). (4 - addr mod 4) mod 4)") (auto simp: and_3_mod_4 mod_Suc)

declare align_dst8b.simps [simp del]

text \<open>\<open>memcpy(&pattern, src, n)\<close> into a zero pattern: the \<open>n\<close> bytes, little-endian.\<close>

definition memcpy_load :: "u8 list \<Rightarrow> nat \<Rightarrow> nat \<Rightarrow> u32" where
  "memcpy_load mem s n = of_nat (le_value (take n (drop s mem)))"

definition CopySmallPattern8b :: "nat \<Rightarrow> u8 list \<Rightarrow> nat \<Rightarrow> nat \<Rightarrow> nat \<Rightarrow> u32 \<Rightarrow> u8 list" where
  "CopySmallPattern8b addr mem s d len pattern =
     (let (mem, s, d, len, pattern) = align_dst8b addr mem s d len pattern;
          mem = fill_pattern32 mem d pattern (len div 4);
          i = 4 * (len div 4)
      in copy_fwd mem (d + i) (s + i) (len - i))"

definition CopyBlock8b :: "nat \<Rightarrow> u8 list \<Rightarrow> nat \<Rightarrow> nat \<Rightarrow> nat \<Rightarrow> u8 list" where
  "CopyBlock8b addr mem d dist len =
     (let s = d - dist in
      if len \<ge> 8 \<and> (dist = 1 \<or> dist = 2 \<or> dist = 4) then
        let pattern =
              (if dist = 1 then 0x01010101 * ucast (mem ! s)
               else if dist = 2 then 0x00010001 * memcpy_load mem s 2
               else memcpy_load mem s 4)
        in CopySmallPattern8b addr mem s d len pattern
      else if dist \<ge> len then mem_copy mem d s len
      else copy_fwd mem d s len)"

lemma align_steps_Suc:
  "addr mod 4 \<noteq> 0 \<Longrightarrow> (4 - addr mod 4) mod 4 = Suc ((4 - Suc addr mod 4) mod 4)"
  by (simp add: mod_Suc) (use mod_less_divisor [of 4 addr] in arith)

lemma align_dst8b_eq:
  "align_dst8b addr mem s d len p =
     (let a = (4 - addr mod 4) mod 4
      in (copy_fwd mem d s a, s + a, d + a, len - a, (Rotate8b ^^ a) p))"
proof (induction addr mem s d len p rule: align_dst8b.induct)
  case (1 addr mem s d len p)
  show ?case
  proof (cases "addr mod 4 = 0")
    case True
    then show ?thesis by (subst align_dst8b.simps) (simp add: and_3_mod_4)
  next
    case False
    let ?a = "(4 - Suc addr mod 4) mod 4"
    have a: "(4 - addr mod 4) mod 4 = Suc ?a"
      using False by (rule align_steps_Suc)
    have "align_dst8b addr mem s d len p =
          align_dst8b (Suc addr) (mem[d := mem ! s]) (Suc s) (Suc d) (len - 1) (Rotate8b p)"
      using False by (subst align_dst8b.simps) (simp add: and_3_mod_4)
    also have "\<dots> = (copy_fwd (mem[d := mem ! s]) (Suc d) (Suc s) ?a, Suc s + ?a, Suc d + ?a,
                      len - 1 - ?a, (Rotate8b ^^ ?a) (Rotate8b p))"
      using 1 False by (simp add: and_3_mod_4 Let_def)
    finally show ?thesis
      by (simp only: Let_def a) (simp add: funpow_Suc_right del: funpow.simps)
  qed
qed

lemma pbyte_Rotate8b:
  assumes "i < 4"
  shows "pbyte (Rotate8b V) i = pbyte V (Suc i mod 4)"
proof -
  have ff: "(0xff::u32) = mask 8" by (simp add: mask_eq_exp_minus_1)
  have "i = 0 \<or> i = 1 \<or> i = 2 \<or> i = 3" using assms by auto
  then show ?thesis
    unfolding pbyte_def Rotate8b_def ff
    by (elim disjE) (simp_all, (rule bit_word_eqI, auto simp: bit_simps)+)
qed


lemma length_fill_pattern32 [simp]: "length (fill_pattern32 mem d p n) = length mem"
  by (induction mem d p n rule: fill_pattern32.induct) (simp_all add: store32_def)

lemma fill_pattern32_nth:
  "d + 4 * n \<le> length mem \<Longrightarrow>
   fill_pattern32 mem d p n ! k =
     (if d \<le> k \<and> k < d + 4 * n then pbyte p ((k - d) mod 4) else mem ! k)"
proof (induction mem d p n arbitrary: k rule: fill_pattern32.induct)
  case (1 mem d p)
  then show ?case by auto
next
  case (2 mem d p n)
  have len: "d + 4 + 4 * n \<le> length (store32 mem d p)"
    using "2.prems" by (simp add: store32_def)
  have m: "(k - (d + 4)) mod 4 = (k - d) mod 4" if "d + 4 \<le> k"
  proof -
    have "k - (d + 4) = (k - d) - 4" by simp
    then show ?thesis using that by (simp add: le_mod_geq)
  qed
  show ?case
    using "2.IH" [OF len, of k] "2.prems" m
    by (auto simp: store32_def nth_list_update)
qed

lemma pbyte_Rotate8b_funpow:
  "i < 4 \<Longrightarrow> pbyte ((Rotate8b ^^ a) p) i = pbyte p ((i + a) mod 4)"
proof (induction a arbitrary: i)
  case 0
  then show ?case by simp
next
  case (Suc a)
  have "pbyte ((Rotate8b ^^ Suc a) p) i = pbyte ((Rotate8b ^^ a) p) (Suc i mod 4)"
    using Suc.prems by (simp add: pbyte_Rotate8b)
  also have "\<dots> = pbyte p ((Suc i mod 4 + a) mod 4)"
    by (rule Suc.IH) simp
  finally show ?case by (simp add: mod_add_left_eq)
qed

lemma pbyte_le_value:
  assumes "length bs = 4" "i < 4"
  shows "pbyte (of_nat (le_value bs)) i = bs ! i"
proof -
  have "le_value bs < 2 ^ 32" using le_value_bound [of bs] assms(1) by simp
  then have "unat (of_nat (le_value bs) :: u32) = le_value bs" by (simp add: unat_of_nat)
  moreover have "(2::nat) ^ (8 * i) = 256 ^ i" by (simp add: power_mult)
  ultimately have "unat (pbyte (of_nat (le_value bs)) i) = unat (bs ! i)"
    using assms le_value_byte [of i bs]
    unfolding pbyte_def unsigned_ucast_eq unat_drop_bit_eq by (simp add: drop_bit_eq_div take_bit_eq_mod)
  then show ?thesis by (simp add: word_unat_eq_iff)
qed


lemma pbyte_eqI:
  assumes "\<And>i. i < 4 \<Longrightarrow> pbyte x i = pbyte y i"
  shows "x = y"
proof (rule bit_word_eqI)
  fix n assume n: "n < LENGTH(32)"
  have "bit (pbyte x (n div 8)) (n mod 8) = bit (pbyte y (n div 8)) (n mod 8)"
    using assms [of "n div 8"] n by simp
  moreover have "8 * (n div 8) + n mod 8 = n" by simp
  ultimately show "bit x n = bit y n"
    unfolding pbyte_def by (simp add: bit_simps)
qed

lemma take_drop_map: "s + n \<le> length mem \<Longrightarrow> take n (drop s mem) = map (\<lambda>i. mem ! (s + i)) [0..<n]"
  by (intro nth_equalityI) auto

lemma map_upt_4: "map f [0..<4] = [f 0, f 1, f 2, f 3]"
  by (simp add: numeral_eq_Suc upt_Suc)

lemma CopyBlock8b_pattern:
  assumes "D = 1 \<or> D = 2 \<or> D = 4" "s + 4 \<le> length mem"
  shows "(if D = 1 then 0x01010101 * ucast (mem ! s)
          else if D = 2 then 0x00010001 * memcpy_load mem s 2 else memcpy_load mem s 4)
         = (of_nat (le_value (map (\<lambda>i. mem ! (s + i mod D)) [0..<4])) :: u32)"
proof -
  consider "D = 1" | "D = 2" | "D = 4" using assms(1) by blast
  then show ?thesis
  proof cases
    case 1
    have "unat (mem ! s) < 256" using unsigned_less [of "mem ! s"] by simp
    then show ?thesis using 1
      by (simp add: map_upt_4 word_unat_eq_iff unat_word_ariths unat_of_nat unsigned_ucast_eq take_bit_eq_mod)
  next
    case 2
    have ld: "memcpy_load mem s 2 = of_nat (le_value [mem ! s, mem ! Suc s])"
      using assms(2) by (simp add: memcpy_load_def take_drop_map numeral_eq_Suc upt_Suc)
    have "le_value (map (\<lambda>i. mem ! (s + i mod D)) [0..<4]) = 65537 * le_value [mem ! s, mem ! Suc s]"
      using 2 by (simp add: map_upt_4)
    then show ?thesis using 2 by (simp add: ld of_nat_mult)
  next
    case 3
    then show ?thesis using assms(2)
      by (simp add: map_upt_4 memcpy_load_def take_drop_map)
  qed
qed


lemma CopySmallPattern8b_unfold:
  "CopySmallPattern8b addr mem s d len p =
     (let a = (4 - addr mod 4) mod 4; q = (len - a) div 4
      in copy_fwd (fill_pattern32 (copy_fwd mem d s a) (d + a) ((Rotate8b ^^ a) p) q)
                  (d + a + 4 * q) (s + a + 4 * q) (len - a - 4 * q))"
  by (simp add: CopySmallPattern8b_def align_dst8b_eq Let_def)

lemma CopySmallPattern8b_correct:
  assumes D: "D = 1 \<or> D = 2 \<or> D = 4" "D \<le> d" and len: "8 \<le> L" "d + L \<le> length mem"
    and pat: "\<And>i. i < 4 \<Longrightarrow> pbyte p i = copy_fwd mem d (d - D) L ! (d + i)"
  shows "CopySmallPattern8b addr mem (d - D) d L p = copy_fwd mem d (d - D) L"
proof -
  let ?T = "copy_fwd mem d (d - D) L"
  define a where "a = (4 - addr mod 4) mod 4"
  define q where "q = (L - a) div 4"
  define e where "e = d + a + 4 * q"
  let ?m1 = "copy_fwd mem d (d - D) a"
  let ?m2 = "fill_pattern32 ?m1 (d + a) ((Rotate8b ^^ a) p) q"
  have a4: "a < 4" by (simp add: a_def)
  have q4: "a + 4 * q \<le> L" using a4 len(1) by (simp add: q_def)
  have D0: "0 < D" using D(1) by auto
  have per4: "\<And>k. d \<le> k \<Longrightarrow> k + 4 < d + L \<Longrightarrow> ?T ! (k + 4) = ?T ! k"
    using D len(2) D0 by (intro copy_fwd_period_dvd) auto
  have shift0: "?T ! (d + j) = ?T ! (d + j mod 4)" if "j < L" for j
    using periodic_nth [of d 4 "d + L" ?T j, OF per4] that by simp
  have shift: "?T ! (d + a + j) = ?T ! (d + a + j mod 4)" if "a + j < L" for j
  proof -
    have "?T ! (d + a + j) = ?T ! (d + (a + j) mod 4)"
      using shift0 [of "a + j"] that by (simp add: ac_simps)
    also have "\<dots> = ?T ! (d + (a + j mod 4) mod 4)" by (simp add: mod_add_right_eq)
    also have "\<dots> = ?T ! (d + a + j mod 4)"
      using shift0 [of "a + j mod 4"] that a4 len(1) by (simp add: ac_simps)
    finally show ?thesis .
  qed
  have pat': "pbyte ((Rotate8b ^^ a) p) i = ?T ! (d + a + i)" if "i < 4" for i
  proof -
    have "pbyte ((Rotate8b ^^ a) p) i = ?T ! (d + (i + a) mod 4)"
      using that by (simp add: pbyte_Rotate8b_funpow pat)
    also have "\<dots> = ?T ! (d + (i + a))"
      using shift0 [of "i + a"] that a4 len(1) by simp
    finally show ?thesis by (simp add: ac_simps)
  qed
  have m1: "?m1 ! k = ?T ! k" if "\<not> (d + a \<le> k \<and> k < d + L)" for k
    using that D0 D(2) len a4 by (auto simp: copy_fwd_nth)
  have m2: "?m2 ! k = ?T ! k" if "\<not> (e \<le> k \<and> k < d + L)" for k
  proof (cases "d + a \<le> k \<and> k < e")
    case True
    then have "?m2 ! k = ?T ! (d + a + (k - (d + a)) mod 4)"
      using len q4 by (simp add: fill_pattern32_nth e_def pat')
    also have "\<dots> = ?T ! k"
    proof -
      have j: "a + (k - (d + a)) < L" using True q4 by (simp add: e_def) arith
      have "d + a + (k - (d + a)) = k" using True by arith
      then show ?thesis using shift [OF j] by simp
    qed
    finally show ?thesis .
  next
    case False
    then have out: "\<not> (d + a \<le> k \<and> k < d + L)" using that by auto
    have F: "\<not> (d + a \<le> k \<and> k < d + a + 4 * q)" using False by (simp add: e_def)
    have lf: "d + a + 4 * q \<le> length ?m1" using len q4 by simp
    have "?m2 ! k = ?m1 ! k"
      by (simp only: fill_pattern32_nth [OF lf] if_not_P [OF F])
    then show ?thesis using m1 [OF out] by simp
  qed
  have fin: "copy_fwd ?m2 e (e - D) (L - a - 4 * q) ! k = (if e \<le> k \<and> k < d + L then ?T ! k else ?m2 ! k)"
    for k
  proof -
    have "copy_fwd ?m2 e (e - D) (L - a - 4 * q) ! k =
          (if e \<le> k \<and> k < e + (L - a - 4 * q) then ?T ! k else ?m2 ! k)"
    proof (rule copy_fwd_completes)
      show "0 < D" "D \<le> e" using D0 D(2) by (simp_all add: e_def)
      show "\<And>k. e - D \<le> k \<Longrightarrow> k < e \<Longrightarrow> ?m2 ! k = ?T ! k" using m2 by simp
      show "\<And>k. e \<le> k \<Longrightarrow> k < e + (L - a - 4 * q) \<Longrightarrow> ?T ! (k - D) = ?T ! k"
        using copy_fwd_period [OF D0 D(2) len(2)] q4 by (simp add: e_def)
      show "e + (L - a - 4 * q) \<le> length ?m2" using q4 len by (simp add: e_def)
    qed
    then show ?thesis using q4 by (simp add: e_def)
  qed
  have idx: "d - D + a + 4 * q = e - D" using D(2) by (simp add: e_def)
  have "CopySmallPattern8b addr mem (d - D) d L p = copy_fwd ?m2 e (e - D) (L - a - 4 * q)"
    unfolding CopySmallPattern8b_unfold Let_def a_def [symmetric] q_def [symmetric] e_def [symmetric]
    by (simp only: idx)
  also have "\<dots> = ?T"
  proof (rule nth_equalityI)
    show "length (copy_fwd ?m2 e (e - D) (L - a - 4 * q)) = length ?T" by simp
    fix k
    show "copy_fwd ?m2 e (e - D) (L - a - 4 * q) ! k = ?T ! k"
      using fin [of k] m2 [of k] by (cases "e \<le> k \<and> k < d + L") simp_all
  qed
  finally show ?thesis .
qed


lemma CopyBlock8b_copy_fwd:
  assumes "0 < dist" "dist \<le> d" "d + len \<le> length mem"
  shows "CopyBlock8b addr mem d dist len = copy_fwd mem d (d - dist) len"
proof (cases "len \<ge> 8 \<and> (dist = 1 \<or> dist = 2 \<or> dist = 4)")
  case True
  let ?s = "d - dist"
  let ?bs = "map (\<lambda>i. mem ! (?s + i mod dist)) [0..<4]"
  have src: "?s + 4 \<le> length mem" using True assms by auto
  have pat: "pbyte (of_nat (le_value ?bs)) i = copy_fwd mem d ?s len ! (d + i)" if "i < 4" for i
    using that True assms by (simp add: pbyte_le_value copy_fwd_nth)
  have "CopyBlock8b addr mem d dist len = CopySmallPattern8b addr mem ?s d len (of_nat (le_value ?bs))"
    using True CopyBlock8b_pattern [OF _ src, of dist] by (simp add: CopyBlock8b_def Let_def)
  also have "\<dots> = copy_fwd mem d ?s len"
    using True assms pat by (intro CopySmallPattern8b_correct) simp_all
  finally show ?thesis .
next
  case False
  then have "CopyBlock8b addr mem d dist len =
      (if dist \<ge> len then mem_copy mem d (d - dist) len else copy_fwd mem d (d - dist) len)"
    by (simp only: CopyBlock8b_def Let_def if_not_P if_False)
  then show ?thesis using assms by (simp only: copy_fallback_eq)
qed

subsection \<open>Properties\<close>

text \<open>
  C7. Equivalence of the optimised byte copy: whatever the destination's alignment,
  \<open>CopyBlock8b\<close> (the 32-bit pattern path for distances 1, 2 and 4 and runs of at least
  8 bytes, \<open>memcpy\<close> without overlap, the byte loop otherwise) leaves memory exactly as
  the forward byte loop \<open>for (i = 0; i < length; ++i) dst[i] = src[i]\<close> does, for every
  back-reference with \<open>1 \<le> dist \<le> pos\<close> and the run inside the buffer.
\<close>

theorem CopyBlock8b_eq_copy_fwd:
  assumes "0 < dist" "dist \<le> d" "d + len \<le> length mem"
  shows "CopyBlock8b addr mem d dist len = copy_fwd mem d (d - dist) len"
  using assms by (rule CopyBlock8b_copy_fwd)

theorem CopyBlock8b_eq_copy_fwd_witness:
  "CopyBlock8b 5 [7, 9, 0, 0, 0, 0, 0, 0, 0, 0, 0 :: u8] 2 2 9
   = [7, 9, 7, 9, 7, 9, 7, 9, 7, 9, 7]"
proof -
  have "CopyBlock8b 5 [7, 9, 0, 0, 0, 0, 0, 0, 0, 0, 0 :: u8] 2 2 9
        = copy_fwd [7, 9, 0, 0, 0, 0, 0, 0, 0, 0, 0 :: u8] 2 (2 - 2) 9"
    by (rule CopyBlock8b_eq_copy_fwd) simp_all
  then show ?thesis by (simp add: numeral_eq_Suc)
qed

lemma Rotate8b_word_rotr: "Rotate8b V = word_rotr 8 V"
proof (rule bit_word_eqI)
  fix i assume i: "i < LENGTH(32)"
  have ff: "(0xff::u32) = mask 8" by (simp add: mask_eq_exp_minus_1)
  show "bit (Rotate8b V) i = bit (word_rotr 8 V) i"
  proof (cases "i < 24")
    case True
    then show ?thesis using i by (simp add: Rotate8b_def ff bit_simps bit_word_rotr_iff add.commute)
  next
    case False
    then have "(i + 8) mod 32 = i - 24" using i by (simp add: le_mod_geq)
    then show ?thesis using i False by (auto simp: Rotate8b_def ff bit_simps bit_word_rotr_iff dest: bit_imp_le_length)
  qed
qed
text \<open>
  C8. \<open>Rotate8b\<close> is the rotation of the pattern word right by one byte, so after the
  alignment loop has copied \<open>a\<close> bytes the pattern is the original rotated right by
  \<open>8 * a\<close> bits: its byte \<open>i\<close> is byte \<open>(i + a) mod 4\<close> of the original, in phase with the
  destination address.
\<close>

theorem Rotate8b_rotr: "(Rotate8b ^^ a) V = word_rotr (8 * a) V"
proof (induction a)
  case 0
  show ?case by (rule bit_word_eqI) (simp add: bit_word_rotr_iff)
next
  case (Suc a)
  have "(Rotate8b ^^ Suc a) V = Rotate8b ((Rotate8b ^^ a) V)" by simp
  also have "\<dots> = word_rotr 8 (word_rotr (8 * a) V)" by (simp only: Suc.IH Rotate8b_word_rotr)
  also have "\<dots> = word_rotr (8 * Suc a) V" by (simp add: word_rotr_word_rotr_eq)
  finally show ?case .
qed

end
