(* ===== verification/Huffman.thy ===== *)
theory Huffman
  imports BitReader
begin

text \<open>
  Huffman decoding of the entropy decoder (vp8l.cpp, lines 178--195): a table entry
  \<open>HuffmanCode\<close> holds the number of bits its code consumes and a value, the symbol
  or, for a root entry with more than \<open>HUFFMAN_TABLE_BITS\<close> bits, the offset of a
  second-level table.  All tables of an image live in one array (\<open>huffman_tables_\<close>),
  modelled as a list; a tree is an index into it.  \<open>ReadSymbol\<close> looks the next 8 bits
  up in the root table and, for long codes, the following bits in the second-level
  table, and advances the reader by the length of the code it found.
\<close>

record huffman_code =
  hc_bits :: nat
  hc_value :: nat

definition HUFFMAN_TABLE_BITS :: nat where
  "HUFFMAN_TABLE_BITS = 8"

definition HUFFMAN_TABLE_MASK :: nat where
  "HUFFMAN_TABLE_MASK = 2 ^ HUFFMAN_TABLE_BITS - 1"

definition ReadSymbol :: "huffman_code list \<Rightarrow> nat \<Rightarrow> bit_reader \<Rightarrow> nat \<times> bit_reader" where
  "ReadSymbol tbl t br =
     (let val = VP8LPrefetchBits br;
          t = t + (val AND HUFFMAN_TABLE_MASK);
          nbits = int (hc_bits (tbl ! t)) - int HUFFMAN_TABLE_BITS
      in if nbits > 0 then
           let br = VP8LSetBitPos br (br_bit_pos br + HUFFMAN_TABLE_BITS);
               val = VP8LPrefetchBits br;
               t = t + hc_value (tbl ! t);
               t = t + (val AND (push_bit (nat nbits) 1 - 1))
           in (hc_value (tbl ! t), VP8LSetBitPos br (br_bit_pos br + hc_bits (tbl ! t)))
         else (hc_value (tbl ! t), VP8LSetBitPos br (br_bit_pos br + hc_bits (tbl ! t))))"

text \<open>
  \<open>HTreeGroup\<close>: the five trees GREEN, RED, BLUE, ALPHA, DIST as indices into the table
  array, and the literal fast path of groups whose red, blue and alpha trees are trivial.
\<close>

record htree_group =
  htrees :: "nat list"
  is_trivial_literal :: bool
  literal_arb :: u32

definition GREEN :: nat where "GREEN = 0"
definition RED :: nat where "RED = 1"
definition BLUE :: nat where "BLUE = 2"
definition ALPHA :: nat where "ALPHA = 3"
definition DIST :: nat where "DIST = 4"

subsection \<open>Lemmas\<close>

lemma and_mask_nat: "(x::nat) AND (2 ^ n - 1) = x mod 2 ^ n"
proof -
  have "(2::nat) ^ n - 1 = mask n" by (simp add: mask_eq_exp_minus_1)
  then show ?thesis by (simp add: take_bit_eq_mask [symmetric] take_bit_eq_mod)
qed

lemma root_index_bound: "(x::nat) AND HUFFMAN_TABLE_MASK < 2 ^ HUFFMAN_TABLE_BITS"
  unfolding HUFFMAN_TABLE_MASK_def and_mask_nat by simp

lemma ReadSymbol_buf [simp]: "br_buf (snd (ReadSymbol tbl t br)) = br_buf br"
  by (simp add: ReadSymbol_def Let_def)

lemma ReadSymbol_eos_mono: "br_eos br \<Longrightarrow> br_eos (snd (ReadSymbol tbl t br))"
  by (simp add: ReadSymbol_def Let_def VP8LSetBitPos_def VP8LIsEndOfStream_def)

end
