(* ===== verification/DecodeStep.thy ===== *)
theory DecodeStep
  imports Codes CopyBlock ColorCache Huffman
begin

text \<open>
  One iteration of the main loop of the entropy decoder, \<open>DecodeImageData\<close>
  (vp8l.cpp, lines 987--1116), with the decoder state it reads and writes
  (\<open>VP8LDecoder\<close>, \<open>VP8LMetadata\<close>), the tile lookup \<open>GetMetaIndex\<close> /
  \<open>GetHtreeGroupForPos\<close> (lines 645--657) and the snapshot pair \<open>SaveState\<close> /
  \<open>RestoreState\<close> (lines 966--985).  The loop's local variables (\<open>src\<close>, \<open>col\<close>, \<open>row\<close>,
  \<open>last_cached\<close>, \<open>htree_group\<close>, \<open>next_sync_row\<close>) are the record \<open>dd_state\<close>, the
  pixel buffer \<open>data\<close> is a list of 32-bit pixels indexed by \<open>src\<close>, and the row hook
  \<open>process_func\<close> is a parameter acting on the row pipeline's own state \<open>'o\<close>: it
  sees the pixel buffer and the row and changes nothing else.  A step ends in
  \<open>Continue\<close> (the loop goes on), \<open>Break\<close> (the \<open>break\<close> statements) or \<open>Fail\<close>
  (\<open>goto Error\<close>).
\<close>

datatype VP8StatusCode =
  VP8_STATUS_OK | VP8_STATUS_OUT_OF_MEMORY | VP8_STATUS_INVALID_PARAM
| VP8_STATUS_BITSTREAM_ERROR | VP8_STATUS_UNSUPPORTED_FEATURE | VP8_STATUS_SUSPENDED
| VP8_STATUS_USER_ABORT | VP8_STATUS_NOT_ENOUGH_DATA

record vp8l_metadata =
  color_cache_size :: nat
  color_cache :: color_cache
  saved_color_cache :: color_cache
  huffman_mask :: int
  huffman_subsample_bits :: nat
  huffman_xsize :: nat
  huffman_image :: "nat list"
  num_htree_groups :: nat
  htree_groups :: "htree_group list"
  huffman_tables :: "huffman_code list"

text \<open>The decoder's states (\<open>READ_DIM\<close>, \<open>READ_HDR\<close>, \<open>READ_DATA\<close>) and the transforms
  of the stream (vp8li.h), numbered as the two bits of the stream number them.\<close>

datatype VP8LDecodeState = READ_DIM | READ_HDR | READ_DATA

datatype VP8LImageTransformType =
  PREDICTOR_TRANSFORM | CROSS_COLOR_TRANSFORM | SUBTRACT_GREEN | COLOR_INDEXING_TRANSFORM

record vp8l_transform =
  tr_type :: VP8LImageTransformType
  tr_bits :: nat
  tr_xsize :: nat
  tr_ysize :: nat
  tr_data :: "u32 list"

record 'o vp8l_decoder =
  dec_status :: VP8StatusCode
  dec_state :: VP8LDecodeState
  dec_next_transform :: nat
  dec_transforms_seen :: nat
  dec_transforms :: "vp8l_transform list"
  dec_br :: bit_reader
  dec_saved_br :: bit_reader
  dec_last_pixel :: nat
  dec_saved_last_pixel :: nat
  dec_incremental :: bool
  dec_width :: nat
  dec_height :: nat
  dec_hdr :: vp8l_metadata
  dec_io :: 'o

datatype 'a loop_step = Continue 'a | Break 'a | Fail 'a

record 'o dd_ctx =
  ctx_width :: nat
  ctx_height :: nat
  ctx_last_row :: nat
  ctx_process_func :: "('o \<Rightarrow> u32 list \<Rightarrow> nat \<Rightarrow> 'o) option"
  ctx_data_addr :: nat

record 'o dd_state =
  dd_dec :: "'o vp8l_decoder"
  dd_data :: "u32 list"
  dd_src :: nat
  dd_col :: nat
  dd_row :: nat
  dd_last_cached :: nat
  dd_htree_group :: nat
  dd_next_sync_row :: nat

definition NUM_ARGB_CACHE_ROWS :: nat where "NUM_ARGB_CACHE_ROWS = 16"
definition SYNC_EVERY_N_ROWS :: nat where "SYNC_EVERY_N_ROWS = 8"

subsection \<open>Tiles and snapshots\<close>

definition GetMetaIndex :: "nat list \<Rightarrow> nat \<Rightarrow> nat \<Rightarrow> nat \<Rightarrow> nat \<Rightarrow> nat" where
  "GetMetaIndex img xsize bits x y =
     (if bits = 0 then 0 else img ! (xsize * drop_bit bits y + drop_bit bits x))"

definition GetHtreeGroupForPos :: "vp8l_metadata \<Rightarrow> nat \<Rightarrow> nat \<Rightarrow> nat" where
  "GetHtreeGroupForPos hdr x y =
     GetMetaIndex (huffman_image hdr) (huffman_xsize hdr) (huffman_subsample_bits hdr) x y"

definition SaveState :: "'o vp8l_decoder \<Rightarrow> nat \<Rightarrow> 'o vp8l_decoder" where
  "SaveState dec last_pixel =
     (let hdr = dec_hdr dec in
      dec\<lparr>dec_saved_br := dec_br dec, dec_saved_last_pixel := last_pixel,
          dec_hdr := (if color_cache_size hdr > 0
                      then hdr\<lparr>saved_color_cache :=
                                 VP8LColorCacheCopy (color_cache hdr) (saved_color_cache hdr)\<rparr>
                      else hdr)\<rparr>)"

definition RestoreState :: "'o vp8l_decoder \<Rightarrow> 'o vp8l_decoder" where
  "RestoreState dec =
     (let hdr = dec_hdr dec in
      dec\<lparr>dec_status := VP8_STATUS_SUSPENDED, dec_br := dec_saved_br dec,
          dec_last_pixel := dec_saved_last_pixel dec,
          dec_hdr := (if color_cache_size hdr > 0
                      then hdr\<lparr>color_cache :=
                                 VP8LColorCacheCopy (saved_color_cache hdr) (color_cache hdr)\<rparr>
                      else hdr)\<rparr>)"

text \<open>\<open>VP8LSubSampleSize(size, bits) = (size + (1 << bits) - 1) >> bits\<close> (vp8li.h).\<close>

definition VP8LSubSampleSize :: "nat \<Rightarrow> nat \<Rightarrow> nat" where
  "VP8LSubSampleSize sz sampling_bits = drop_bit sampling_bits (sz + 2 ^ sampling_bits - 1)"

text \<open>\<open>UpdateDecoder\<close>: the image size and the tile geometry of the Huffman image.\<close>

definition UpdateDecoder :: "'o vp8l_decoder \<Rightarrow> nat \<Rightarrow> nat \<Rightarrow> 'o vp8l_decoder" where
  "UpdateDecoder dec width height =
     (let hdr = dec_hdr dec; num_bits = huffman_subsample_bits hdr in
      dec\<lparr>dec_width := width, dec_height := height,
          dec_hdr := hdr\<lparr>huffman_xsize := VP8LSubSampleSize width num_bits,
                         huffman_mask := (if num_bits = 0 then -1 else 2 ^ num_bits - 1)\<rparr>\<rparr>)"

subsection \<open>Pieces of the loop body\<close>

definition set_br :: "'o dd_state \<Rightarrow> bit_reader \<Rightarrow> 'o dd_state" where
  "set_br s b = s\<lparr>dd_dec := (dd_dec s)\<lparr>dec_br := b\<rparr>\<rparr>"

text \<open>\<open>*src = argb\<close>\<close>

definition set_pixel :: "'o dd_state \<Rightarrow> u32 \<Rightarrow> 'o dd_state" where
  "set_pixel s argb = s\<lparr>dd_data := (dd_data s)[dd_src s := argb]\<rparr>"

text \<open>\<open>if ((row % NUM_ARGB_CACHE_ROWS == 0) && (process_func != NULL)) process_func(dec, row);\<close>\<close>

definition call_process :: "'o dd_ctx \<Rightarrow> 'o dd_state \<Rightarrow> 'o dd_state" where
  "call_process c s =
     (if dd_row s mod NUM_ARGB_CACHE_ROWS = 0
      then (case ctx_process_func c of
              None \<Rightarrow> s
            | Some f \<Rightarrow> s\<lparr>dd_dec := (dd_dec s)\<lparr>dec_io := f (dec_io (dd_dec s)) (dd_data s) (dd_row s)\<rparr>\<rparr>)
      else s)"

text \<open>\<open>while (last_cached < src) VP8LColorCacheInsert(color_cache, *last_cached++);\<close>\<close>

definition flush_cache :: "'o dd_state \<Rightarrow> 'o dd_state" where
  "flush_cache s =
     (if dd_last_cached s < dd_src s
      then (let dec = dd_dec s; hdr = dec_hdr dec in
            s\<lparr>dd_dec := dec\<lparr>dec_hdr := hdr\<lparr>color_cache :=
                 cc_insert_all (color_cache hdr) (map (\<lambda>i. dd_data s ! i) [dd_last_cached s..<dd_src s])\<rparr>\<rparr>,
              dd_last_cached := dd_src s\<rparr>)
      else s)"

text \<open>\<open>if (color_cache != NULL)\<close>: the cache exists when its size is positive.\<close>

definition cache_on :: "'o dd_state \<Rightarrow> bool" where
  "cache_on s \<longleftrightarrow> color_cache_size (dec_hdr (dd_dec s)) > 0"

text \<open>The label \<open>AdvanceByOne\<close>.\<close>

definition advance_by_one :: "'o dd_ctx \<Rightarrow> 'o dd_state \<Rightarrow> 'o dd_state" where
  "advance_by_one c s =
     (let s = s\<lparr>dd_src := Suc (dd_src s), dd_col := Suc (dd_col s)\<rparr> in
      if dd_col s \<ge> ctx_width c
      then (let s = call_process c (s\<lparr>dd_col := 0, dd_row := Suc (dd_row s)\<rparr>) in
            if cache_on s then flush_cache s else s)
      else s)"

text \<open>
  \<open>while (col >= width) { col -= width; ++row; ... }\<close> after a back-reference.  The
  C function divides by \<open>width\<close> on entry, so it is never called with \<open>width = 0\<close>;
  the guard \<open>0 < width\<close> only makes that explicit, so that the loop is a total function.
\<close>

function advance_rows :: "'o dd_ctx \<Rightarrow> 'o dd_state \<Rightarrow> 'o dd_state" where
  "advance_rows c s =
     (if 0 < ctx_width c \<and> ctx_width c \<le> dd_col s
      then advance_rows c (call_process c (s\<lparr>dd_col := dd_col s - ctx_width c, dd_row := Suc (dd_row s)\<rparr>))
      else s)"
  by pat_completeness auto
termination
  by (relation "measure (\<lambda>(c, s). dd_col s)") (auto simp: call_process_def split: option.splits)

declare advance_rows.simps [simp del]

subsection \<open>The loop body\<close>

text \<open>\<open>if (row >= next_sync_row) { SaveState(dec, (int)(src - data)); next_sync_row = row + SYNC_EVERY_N_ROWS; }\<close>\<close>

definition DecodeImageData_sync :: "'o dd_state \<Rightarrow> 'o dd_state" where
  "DecodeImageData_sync s =
     (if dd_next_sync_row s \<le> dd_row s
      then s\<lparr>dd_dec := SaveState (dd_dec s) (dd_src s), dd_next_sync_row := dd_row s + SYNC_EVERY_N_ROWS\<rparr>
      else s)"

text \<open>\<open>if ((col & mask) == 0) htree_group = GetHtreeGroupForPos(hdr, col, row);\<close>\<close>

definition DecodeImageData_tile :: "'o dd_state \<Rightarrow> 'o dd_state" where
  "DecodeImageData_tile s =
     (let hdr = dec_hdr (dd_dec s) in
      if (int (dd_col s) AND huffman_mask hdr) = 0
      then s\<lparr>dd_htree_group := GetHtreeGroupForPos hdr (dd_col s) (dd_row s)\<rparr>
      else s)"

text \<open>The literal branch, \<open>code < NUM_LITERAL_CODES\<close>, up to \<open>AdvanceByOne\<close>.\<close>

definition decode_literal :: "'o dd_ctx \<Rightarrow> htree_group \<Rightarrow> nat \<Rightarrow> 'o dd_state \<Rightarrow> 'o dd_state loop_step" where
  "decode_literal c grp code s =
     (let tbl = huffman_tables (dec_hdr (dd_dec s)) in
      if is_trivial_literal grp
      then Continue (advance_by_one c (set_pixel s (literal_arb grp OR push_bit 8 (of_nat code))))
      else
        (let (red, br) = ReadSymbol tbl (htrees grp ! RED) (dec_br (dd_dec s));
             (blue, br) = ReadSymbol tbl (htrees grp ! BLUE) br;
             (alpha, br) = ReadSymbol tbl (htrees grp ! ALPHA) br;
             s = set_br s br
         in if br_eos br then Break s
            else Continue (advance_by_one c (set_pixel s
                   (push_bit 24 (of_nat alpha) OR push_bit 16 (of_nat red)
                    OR push_bit 8 (of_nat code) OR of_nat blue)))))"

text \<open>
  The back-reference branch: length and distance, the bounds check
  \<open>src - data < dist || src_end - src < length\<close>, the copy, the row advance, the tile
  refresh \<open>if (col & mask)\<close> and the cache flush.
\<close>

definition decode_backref :: "'o dd_ctx \<Rightarrow> htree_group \<Rightarrow> nat \<Rightarrow> 'o dd_state \<Rightarrow> 'o dd_state loop_step" where
  "decode_backref c grp code s =
     (let hdr = dec_hdr (dd_dec s);
          src_end = ctx_width c * ctx_height c;
          length_sym = code - NUM_LITERAL_CODES;
          (length, br) = GetCopyLength length_sym (dec_br (dd_dec s));
          (dist_symbol, br) = ReadSymbol (huffman_tables hdr) (htrees grp ! DIST) br;
          (dist_code, br) = GetCopyDistance dist_symbol br;
          dist = PlaneCodeToDistance (ctx_width c) dist_code;
          s = set_br s br;
          src = dd_src s
      in if br_eos br then Break s
         else if src < dist \<or> src_end - src < length then Fail s
         else
           (let s = s\<lparr>dd_data := CopyBlock32b (ctx_data_addr c + 4 * src) (dd_data s) src dist length,
                       dd_src := src + length, dd_col := dd_col s + length\<rparr>;
                s = advance_rows c s;
                s = (if (int (dd_col s) AND huffman_mask hdr) \<noteq> 0
                     then s\<lparr>dd_htree_group := GetHtreeGroupForPos hdr (dd_col s) (dd_row s)\<rparr>
                     else s)
            in Continue (if cache_on s then flush_cache s else s)))"

text \<open>The colour-cache branch: flush, look the key up, then \<open>goto AdvanceByOne\<close>.\<close>

definition decode_cache_ref :: "'o dd_ctx \<Rightarrow> nat \<Rightarrow> 'o dd_state \<Rightarrow> 'o dd_state" where
  "decode_cache_ref c code s =
     (let key = code - (NUM_LITERAL_CODES + NUM_LENGTH_CODES);
          s = flush_cache s
      in advance_by_one c (set_pixel s (VP8LColorCacheLookup (color_cache (dec_hdr (dd_dec s))) key)))"

text \<open>
  One pass of \<open>while (src < src_last) { ... }\<close>.  The bit reader is written back into
  the decoder after every read, as the C code reads through \<open>&dec->br_\<close>.
\<close>

definition DecodeImageData_body :: "'o dd_ctx \<Rightarrow> 'o dd_state \<Rightarrow> 'o dd_state loop_step" where
  "DecodeImageData_body c s0 =
     (let s = DecodeImageData_tile (DecodeImageData_sync s0);
          hdr = dec_hdr (dd_dec s);
          grp = htree_groups hdr ! dd_htree_group s;
          (code, br) = ReadSymbol (huffman_tables hdr) (htrees grp ! GREEN) (dec_br (dd_dec s));
          s = set_br s br
      in if br_eos br then Break s
         else if code < NUM_LITERAL_CODES then decode_literal c grp code s
         else if code < NUM_LITERAL_CODES + NUM_LENGTH_CODES then decode_backref c grp code s
         else if code < NUM_LITERAL_CODES + NUM_LENGTH_CODES + color_cache_size hdr
         then Continue (decode_cache_ref c code s)
         else Fail s)"

subsection \<open>Frame lemmas\<close>

named_theorems dd_frame \<open>fields the pieces of the loop body leave alone\<close>

lemma call_process_frame [simp, dd_frame]:
  "dd_src (call_process c s) = dd_src s" "dd_col (call_process c s) = dd_col s"
  "dd_row (call_process c s) = dd_row s" "dd_data (call_process c s) = dd_data s"
  "dd_last_cached (call_process c s) = dd_last_cached s"
  "dd_htree_group (call_process c s) = dd_htree_group s"
  "dd_next_sync_row (call_process c s) = dd_next_sync_row s"
  "dec_br (dd_dec (call_process c s)) = dec_br (dd_dec s)"
  "dec_hdr (dd_dec (call_process c s)) = dec_hdr (dd_dec s)"
  "dec_incremental (dd_dec (call_process c s)) = dec_incremental (dd_dec s)"
  "cache_on (call_process c s) = cache_on s"
  by (simp_all add: call_process_def cache_on_def split: option.split)

lemma flush_cache_frame [simp, dd_frame]:
  "dd_src (flush_cache s) = dd_src s" "dd_col (flush_cache s) = dd_col s"
  "dd_row (flush_cache s) = dd_row s" "dd_data (flush_cache s) = dd_data s"
  "dd_htree_group (flush_cache s) = dd_htree_group s"
  "dd_next_sync_row (flush_cache s) = dd_next_sync_row s"
  "dec_br (dd_dec (flush_cache s)) = dec_br (dd_dec s)"
  "dec_incremental (dd_dec (flush_cache s)) = dec_incremental (dd_dec s)"
  "cache_on (flush_cache s) = cache_on s"
  by (simp_all add: flush_cache_def cache_on_def Let_def)

lemma set_br_frame [simp, dd_frame]:
  "dd_src (set_br s b) = dd_src s" "dd_col (set_br s b) = dd_col s"
  "dd_row (set_br s b) = dd_row s" "dd_data (set_br s b) = dd_data s"
  "dd_last_cached (set_br s b) = dd_last_cached s"
  "dd_htree_group (set_br s b) = dd_htree_group s"
  "dd_next_sync_row (set_br s b) = dd_next_sync_row s"
  "dec_br (dd_dec (set_br s b)) = b"
  "dec_hdr (dd_dec (set_br s b)) = dec_hdr (dd_dec s)"
  "dec_incremental (dd_dec (set_br s b)) = dec_incremental (dd_dec s)"
  "cache_on (set_br s b) = cache_on s"
  by (simp_all add: set_br_def cache_on_def)

lemma set_pixel_frame [simp, dd_frame]:
  "dd_src (set_pixel s v) = dd_src s" "dd_col (set_pixel s v) = dd_col s"
  "dd_row (set_pixel s v) = dd_row s" "dd_data (set_pixel s v) = (dd_data s)[dd_src s := v]"
  "dd_last_cached (set_pixel s v) = dd_last_cached s"
  "dd_htree_group (set_pixel s v) = dd_htree_group s"
  "dd_next_sync_row (set_pixel s v) = dd_next_sync_row s"
  "dd_dec (set_pixel s v) = dd_dec s"
  "cache_on (set_pixel s v) = cache_on s"
  by (simp_all add: set_pixel_def cache_on_def)

lemma advance_rows_frame [simp, dd_frame]:
  "dd_src (advance_rows c s) = dd_src s" "dd_data (advance_rows c s) = dd_data s"
  "dd_last_cached (advance_rows c s) = dd_last_cached s"
  "dd_htree_group (advance_rows c s) = dd_htree_group s"
  "dd_next_sync_row (advance_rows c s) = dd_next_sync_row s"
  "dec_br (dd_dec (advance_rows c s)) = dec_br (dd_dec s)"
  "dec_hdr (dd_dec (advance_rows c s)) = dec_hdr (dd_dec s)"
  "dec_incremental (dd_dec (advance_rows c s)) = dec_incremental (dd_dec s)"
  by (induction c s rule: advance_rows.induct, subst advance_rows.simps, simp)+

lemma advance_by_one_src [simp]: "dd_src (advance_by_one c s) = Suc (dd_src s)"
  by (simp add: advance_by_one_def Let_def)

subsection \<open>Progress\<close>

text \<open>Every pass that continues the loop moves \<open>src\<close> forward: the loop ends.\<close>

lemma sync_tile_src [simp]:
  "dd_src (DecodeImageData_sync s) = dd_src s" "dd_src (DecodeImageData_tile s) = dd_src s"
  "dd_data (DecodeImageData_sync s) = dd_data s" "dd_data (DecodeImageData_tile s) = dd_data s"
  by (simp_all add: DecodeImageData_sync_def DecodeImageData_tile_def Let_def)
lemma decode_literal_advances:
  "decode_literal c grp code s = Continue s' \<Longrightarrow> dd_src s' = Suc (dd_src s)"
  by (auto simp: decode_literal_def Let_def split: prod.splits if_splits)
lemma decode_backref_advances:
  "decode_backref c grp code s = Continue s' \<Longrightarrow> dd_src s < dd_src s'"
  using GetCopyLength_pos [of "code - NUM_LITERAL_CODES" "dec_br (dd_dec s)"]
  by (auto simp: decode_backref_def Let_def split: prod.splits if_splits)
lemma DecodeImageData_body_advances:
  "DecodeImageData_body c s = Continue s' \<Longrightarrow> dd_src s < dd_src s'"
  by (auto simp: DecodeImageData_body_def Let_def decode_cache_ref_def split: prod.splits if_splits
      dest!: decode_literal_advances decode_backref_advances)
end
