(* ===== verification/DecodeLoop.thy ===== *)
theory DecodeLoop
  imports DecodeStep
begin

text \<open>
  The main loop of \<open>DecodeImageData\<close> (vp8l.cpp, lines 987--1116) and the code after
  it: the loop runs the body of \<open>DecodeStep\<close> while \<open>src < src_last\<close>; its result is
  \<open>(False, s)\<close> when the body jumps to \<open>Error\<close> and \<open>(True, s)\<close> when it leaves the loop
  by its condition or by \<open>break\<close>.  The loop is a total function: every pass that
  continues moves \<open>src\<close> forward (\<open>DecodeImageData_body_advances\<close>), so
  \<open>src_last - src\<close> decreases.  \<open>DecodeImageData\<close> then restores the snapshot
  (incremental decoding out of data), reports success, or reports a bitstream error.
\<close>

function DecodeImageData_loop :: "'o dd_ctx \<Rightarrow> 'o dd_state \<Rightarrow> bool \<times> 'o dd_state" where
  "DecodeImageData_loop c s =
     (if dd_src s < ctx_width c * ctx_last_row c
      then (case DecodeImageData_body c s of
              Continue s' \<Rightarrow> DecodeImageData_loop c s'
            | Break s' \<Rightarrow> (True, s')
            | Fail s' \<Rightarrow> (False, s'))
      else (True, s))"
  by pat_completeness auto
termination
  by (relation "measure (\<lambda>(c, s). ctx_width c * ctx_last_row c - dd_src s)")
     (auto dest: DecodeImageData_body_advances)

declare DecodeImageData_loop.simps [simp del]

text \<open>\<open>if (process_func != NULL) process_func(dec, row);\<close> after the loop.\<close>

definition call_process_final :: "'o dd_ctx \<Rightarrow> 'o dd_state \<Rightarrow> 'o dd_state" where
  "call_process_final c s =
     (case ctx_process_func c of
        None \<Rightarrow> s
      | Some f \<Rightarrow> s\<lparr>dd_dec := (dd_dec s)\<lparr>dec_io := f (dec_io (dd_dec s)) (dd_data s) (dd_row s)\<rparr>\<rparr>)"

text \<open>
  The loop's initial state: the position \<open>last_pixel_\<close> as row and column, and
  \<open>next_sync_row = dec->incremental_ ? row : 1 << 24\<close> (written as its value).
\<close>

definition DecodeImageData_init :: "'o vp8l_decoder \<Rightarrow> u32 list \<Rightarrow> nat \<Rightarrow> 'o dd_state" where
  "DecodeImageData_init dec data width =
     (let row = dec_last_pixel dec div width;
          col = dec_last_pixel dec mod width
      in \<lparr>dd_dec = dec, dd_data = data, dd_src = dec_last_pixel dec, dd_col = col, dd_row = row,
          dd_last_cached = dec_last_pixel dec,
          dd_htree_group = GetHtreeGroupForPos (dec_hdr dec) col row,
          dd_next_sync_row = (if dec_incremental dec then row else 16777216)\<rparr>)"

definition DecodeImageData ::
  "'o vp8l_decoder \<Rightarrow> u32 list \<Rightarrow> nat \<Rightarrow> nat \<Rightarrow> nat \<Rightarrow> ('o \<Rightarrow> u32 list \<Rightarrow> nat \<Rightarrow> 'o) option
   \<Rightarrow> nat \<Rightarrow> bool \<times> 'o vp8l_decoder \<times> u32 list" where
  "DecodeImageData dec data width height last_row process_func data_addr =
     (let c = \<lparr>ctx_width = width, ctx_height = height, ctx_last_row = last_row,
               ctx_process_func = process_func, ctx_data_addr = data_addr\<rparr>;
          (ok, s) = DecodeImageData_loop c (DecodeImageData_init dec data width);
          dec = dd_dec s; br = dec_br dec
      in if \<not> ok then (False, dec\<lparr>dec_status := VP8_STATUS_BITSTREAM_ERROR\<rparr>, dd_data s)
         else if dec_incremental dec \<and> br_eos br \<and> dd_src s < width * height
         then (True, RestoreState dec, dd_data s)
         else if \<not> br_eos br
         then (let s = call_process_final c s
               in (True, (dd_dec s)\<lparr>dec_status := VP8_STATUS_OK, dec_last_pixel := dd_src s\<rparr>, dd_data s))
         else (False, dec\<lparr>dec_status := VP8_STATUS_BITSTREAM_ERROR\<rparr>, dd_data s))"

subsection \<open>Unfolding the loop one pass at a time\<close>

lemma DecodeImageData_loop_step:
  "\<not> dd_src s < ctx_width c * ctx_last_row c \<Longrightarrow> DecodeImageData_loop c s = (True, s)"
  "dd_src s < ctx_width c * ctx_last_row c \<Longrightarrow> DecodeImageData_body c s = Continue s'
   \<Longrightarrow> DecodeImageData_loop c s = DecodeImageData_loop c s'"
  "dd_src s < ctx_width c * ctx_last_row c \<Longrightarrow> DecodeImageData_body c s = Break s'
   \<Longrightarrow> DecodeImageData_loop c s = (True, s')"
  "dd_src s < ctx_width c * ctx_last_row c \<Longrightarrow> DecodeImageData_body c s = Fail s'
   \<Longrightarrow> DecodeImageData_loop c s = (False, s')"
  by (simp_all add: DecodeImageData_loop.simps)

end
