(* ===== verification/DecodeInv.thy ===== *)
theory DecodeInv
  imports DecodeLoop
begin

text \<open>
  Invariants of the main decoding loop.  \<open>dd_reach c s0 s\<close> holds of the states the
  loop passes through from \<open>s0\<close>: each is the start of a pass of the body.  The
  loop's result is a reachable state at which the loop condition fails, or the
  \<open>Break\<close>/\<open>Fail\<close> state of a pass from a reachable state
  (\<open>DecodeImageData_loop_result\<close>).  Invariants are proved by rule induction over
  \<open>dd_reach\<close> from the body's preservation lemmas.
\<close>

inductive dd_reach :: "'o dd_ctx \<Rightarrow> 'o dd_state \<Rightarrow> 'o dd_state \<Rightarrow> bool" for c s0 where
  reach_init: "dd_reach c s0 s0"
| reach_step: "dd_reach c s0 s \<Longrightarrow> dd_src s < ctx_width c * ctx_last_row c
    \<Longrightarrow> DecodeImageData_body c s = Continue s' \<Longrightarrow> dd_reach c s0 s'"

text \<open>The state a pass ends in, whichever way it ends.\<close>

primrec step_state :: "'a loop_step \<Rightarrow> 'a" where
  "step_state (Continue s) = s"
| "step_state (Break s) = s"
| "step_state (Fail s) = s"

text \<open>Where the pixel position lives: \<open>src = row * width + col\<close>, inside the raster.\<close>

definition pos_inv :: "'o dd_ctx \<Rightarrow> 'o dd_state \<Rightarrow> bool" where
  "pos_inv c s \<longleftrightarrow> 0 < ctx_width c \<and> dd_src s = dd_row s * ctx_width c + dd_col s
     \<and> dd_col s < ctx_width c \<and> dd_src s \<le> ctx_width c * ctx_height c
     \<and> length (dd_data s) = ctx_width c * ctx_height c"

text \<open>The tile mask is the one \<open>UpdateDecoder\<close> computes from the subsampling bits.\<close>

definition hdr_wf :: "vp8l_metadata \<Rightarrow> bool" where
  "hdr_wf hdr \<longleftrightarrow> huffman_mask hdr =
     (if huffman_subsample_bits hdr = 0 then -1 else 2 ^ huffman_subsample_bits hdr - 1)"

text \<open>Two headers agree on everything but the two colour caches.\<close>

definition same_tables :: "vp8l_metadata \<Rightarrow> vp8l_metadata \<Rightarrow> bool" where
  "same_tables h1 h2 \<longleftrightarrow> color_cache_size h1 = color_cache_size h2 \<and> huffman_mask h1 = huffman_mask h2
     \<and> huffman_subsample_bits h1 = huffman_subsample_bits h2 \<and> huffman_xsize h1 = huffman_xsize h2
     \<and> huffman_image h1 = huffman_image h2 \<and> num_htree_groups h1 = num_htree_groups h2
     \<and> htree_groups h1 = htree_groups h2 \<and> huffman_tables h1 = huffman_tables h2"

text \<open>
  \<open>grp_ok\<close>: the current group is the one of the current tile; \<open>tile_inv\<close>: so it is,
  unless the next pass refreshes it because the column starts a tile.
\<close>

definition grp_ok :: "'o dd_state \<Rightarrow> bool" where
  "grp_ok s \<longleftrightarrow> dd_htree_group s = GetHtreeGroupForPos (dec_hdr (dd_dec s)) (dd_col s) (dd_row s)"

definition tile_inv :: "'o dd_state \<Rightarrow> bool" where
  "tile_inv s \<longleftrightarrow> (let hdr = dec_hdr (dd_dec s) in
     (int (dd_col s) AND huffman_mask hdr) = 0
     \<or> dd_htree_group s = GetHtreeGroupForPos hdr (dd_col s) (dd_row s))"

text \<open>
  The colour cache the loop keeps lazily: \<open>last_cached\<close> lies between its start and
  \<open>src\<close>, and the cache is the entry cache with the pixels from the entry position up
  to \<open>last_cached\<close> inserted in raster order.
\<close>

definition cache_inv :: "'o dd_state \<Rightarrow> 'o dd_state \<Rightarrow> bool" where
  "cache_inv s0 s \<longleftrightarrow> dd_last_cached s0 \<le> dd_last_cached s \<and> dd_last_cached s \<le> dd_src s
     \<and> color_cache (dec_hdr (dd_dec s)) =
        cc_insert_all (color_cache (dec_hdr (dd_dec s0)))
          (map (\<lambda>i. dd_data s ! i) [dd_last_cached s0..<dd_last_cached s])"

text \<open>A pass starts before the next sync row, or with nothing left to insert.\<close>

definition sync_inv :: "'o dd_state \<Rightarrow> bool" where
  "sync_inv s \<longleftrightarrow> cache_on s \<longrightarrow> dd_row s < dd_next_sync_row s \<or> dd_src s \<le> dd_last_cached s"

text \<open>The preconditions under which \<open>DecodeImageData\<close> is called.\<close>

definition DecodeImageData_pre :: "'o dd_ctx \<Rightarrow> 'o vp8l_decoder \<Rightarrow> u32 list \<Rightarrow> bool" where
  "DecodeImageData_pre c dec data \<longleftrightarrow> 0 < ctx_width c
     \<and> dec_last_pixel dec \<le> ctx_width c * ctx_height c
     \<and> length data = ctx_width c * ctx_height c
     \<and> ctx_last_row c \<le> ctx_height c \<and> ctx_height c \<le> 16384"

text \<open>All invariants of the loop together.\<close>

definition dd_inv :: "'o dd_ctx \<Rightarrow> 'o dd_state \<Rightarrow> 'o dd_state \<Rightarrow> bool" where
  "dd_inv c s0 s \<longleftrightarrow> pos_inv c s \<and> cache_inv s0 s \<and> sync_inv s
     \<and> dec_incremental (dd_dec s) = dec_incremental (dd_dec s0)
     \<and> (\<not> dec_incremental (dd_dec s) \<longrightarrow> dd_next_sync_row s = 16777216)"

subsection \<open>The loop and the reachable states\<close>

lemma DecodeImageData_loop_result:
  assumes "DecodeImageData_loop c s = (ok, s')" and "dd_reach c s0 s"
  shows "\<exists>t. dd_reach c s0 t \<and>
           ((\<not> dd_src t < ctx_width c * ctx_last_row c \<and> s' = t \<and> ok)
            \<or> (dd_src t < ctx_width c * ctx_last_row c
               \<and> (DecodeImageData_body c t = Break s' \<and> ok
                  \<or> DecodeImageData_body c t = Fail s' \<and> \<not> ok)))"
  using assms
proof (induction c s rule: DecodeImageData_loop.induct)
  case (1 c s)
  show ?case
  proof (cases "dd_src s < ctx_width c * ctx_last_row c")
    case False
    then show ?thesis using "1.prems" by (auto simp: DecodeImageData_loop.simps)
  next
    case True
    show ?thesis
    proof (cases "DecodeImageData_body c s")
      case (Continue s1)
      then have "DecodeImageData_loop c s1 = (ok, s')"
        using True "1.prems"(1) by (simp add: DecodeImageData_loop.simps)
      moreover have "dd_reach c s0 s1"
        using "1.prems"(2) True Continue by (rule reach_step)
      ultimately show ?thesis using "1.IH" True Continue by blast
    next
      case (Break s1)
      then show ?thesis using True "1.prems" by (auto simp: DecodeImageData_loop.simps)
    next
      case (Fail s1)
      then show ?thesis using True "1.prems" by (auto simp: DecodeImageData_loop.simps)
    qed
  qed
qed

text \<open>An invariant the body keeps, under the loop condition, holds at the loop's result.\<close>

lemma dd_reach_inv:
  assumes "dd_reach c s0 s" "P s0"
    and "\<And>t. P t \<Longrightarrow> dd_src t < ctx_width c * ctx_last_row c \<Longrightarrow> P (step_state (DecodeImageData_body c t))"
  shows "P s"
  using assms(1)
proof induction
  case reach_init
  then show ?case by (rule assms(2))
next
  case (reach_step s s')
  then show ?case using assms(3) [of s] by simp
qed

lemma DecodeImageData_loop_inv:
  assumes "DecodeImageData_loop c s0 = (ok, s')" "P s0"
    and step: "\<And>t. P t \<Longrightarrow> dd_src t < ctx_width c * ctx_last_row c \<Longrightarrow> P (step_state (DecodeImageData_body c t))"
  shows "P s'"
proof -
  obtain t where t: "dd_reach c s0 t" and
    r: "(\<not> dd_src t < ctx_width c * ctx_last_row c \<and> s' = t \<and> ok)
        \<or> (dd_src t < ctx_width c * ctx_last_row c
           \<and> (DecodeImageData_body c t = Break s' \<and> ok \<or> DecodeImageData_body c t = Fail s' \<and> \<not> ok))"
    using DecodeImageData_loop_result [OF assms(1) reach_init] by blast
  have Pt: "P t" using t assms(2) step by (rule dd_reach_inv)
  show ?thesis using r Pt step [OF Pt] by auto
qed

subsection \<open>Position invariant\<close>

lemma pos_inv_cong:
  "dd_src t = dd_src s \<Longrightarrow> dd_row t = dd_row s \<Longrightarrow> dd_col t = dd_col s
   \<Longrightarrow> length (dd_data t) = length (dd_data s) \<Longrightarrow> pos_inv c t = pos_inv c s"
  by (simp add: pos_inv_def)

lemma pos_inv_pieces [simp]:
  "pos_inv c (DecodeImageData_sync s) = pos_inv c s"
  "pos_inv c (DecodeImageData_tile s) = pos_inv c s"
  "pos_inv c (set_br s b) = pos_inv c s"
  "pos_inv c (flush_cache s) = pos_inv c s"
  "pos_inv c (set_pixel s v) = pos_inv c s"
  by (simp_all add: pos_inv_def DecodeImageData_sync_def DecodeImageData_tile_def Let_def)

lemma advance_by_one_pos_inv:
  assumes "pos_inv c s" "dd_src s < ctx_width c * ctx_height c"
  shows "pos_inv c (advance_by_one c s)"
proof (cases "Suc (dd_col s) < ctx_width c")
  case True
  with assms show ?thesis by (simp add: advance_by_one_def pos_inv_def Let_def)
next
  case False
  then have "Suc (dd_col s) = ctx_width c" using assms(1) by (simp add: pos_inv_def)
  with assms show ?thesis
    by (auto simp: advance_by_one_def pos_inv_def Let_def flush_cache_def)
qed

lemma advance_rows_pos:
  "0 < ctx_width c \<Longrightarrow> dd_src s = dd_row s * ctx_width c + dd_col s \<Longrightarrow>
   dd_src (advance_rows c s) = dd_row (advance_rows c s) * ctx_width c + dd_col (advance_rows c s)
   \<and> dd_col (advance_rows c s) < ctx_width c"
proof (induction c s rule: advance_rows.induct)
  case (1 c s)
  show ?case
  proof (cases "ctx_width c \<le> dd_col s")
    case True
    let ?s = "call_process c (s\<lparr>dd_col := dd_col s - ctx_width c, dd_row := Suc (dd_row s)\<rparr>)"
    have "dd_src ?s = dd_row ?s * ctx_width c + dd_col ?s" using "1.prems" True by simp
    then show ?thesis using "1.IH" "1.prems"(1) True by (subst (1 2 3) advance_rows.simps) simp
  next
    case False
    then show ?thesis using "1.prems" by (subst (1 2 3) advance_rows.simps) simp
  qed
qed

lemma decode_literal_pos_inv:
  "pos_inv c s \<Longrightarrow> dd_src s < ctx_width c * ctx_height c \<Longrightarrow>
   pos_inv c (step_state (decode_literal c grp code s))"
  by (auto simp: decode_literal_def Let_def advance_by_one_pos_inv split: prod.split)

lemma decode_cache_ref_pos_inv:
  "pos_inv c s \<Longrightarrow> dd_src s < ctx_width c * ctx_height c \<Longrightarrow>
   pos_inv c (decode_cache_ref c code s)"
  by (simp add: decode_cache_ref_def Let_def advance_by_one_pos_inv)

lemma decode_backref_pos_inv:
  assumes "pos_inv c s"
  shows "pos_inv c (step_state (decode_backref c grp code s))"
proof -
  let ?w = "ctx_width c"
  have copy: "pos_inv c (advance_rows c (set_br s b\<lparr>dd_data := CopyBlock32b a (dd_data s) (dd_src s) dist len,
                 dd_src := dd_src s + len, dd_col := dd_col s + len\<rparr>))"
    if "len \<le> ?w * ctx_height c - dd_src s" for b a dist len
  proof -
    let ?t = "set_br s b\<lparr>dd_data := CopyBlock32b a (dd_data s) (dd_src s) dist len,
                 dd_src := dd_src s + len, dd_col := dd_col s + len\<rparr>"
    have "0 < ?w" "dd_src ?t = dd_row ?t * ?w + dd_col ?t" using assms by (simp_all add: pos_inv_def)
    from advance_rows_pos [OF this] show ?thesis using that assms by (auto simp: pos_inv_def)
  qed
  have tile: "pos_inv c (if b then u\<lparr>dd_htree_group := g\<rparr> else u) = pos_inv c u" for b u g
    by (simp add: pos_inv_def)
  show ?thesis
    using assms copy
    by (auto simp: decode_backref_def Let_def tile split: prod.split)
qed

lemma DecodeImageData_body_pos_inv:
  assumes "pos_inv c s" "dd_src s < ctx_width c * ctx_last_row c" "ctx_last_row c \<le> ctx_height c"
  shows "pos_inv c (step_state (DecodeImageData_body c s))"
proof -
  have lt: "dd_src s < ctx_width c * ctx_height c"
    using assms(2,3) by (meson less_le_trans mult_le_mono2)
  let ?t = "DecodeImageData_tile (DecodeImageData_sync s)"
  have "pos_inv c ?t" "dd_src ?t < ctx_width c * ctx_height c" using assms(1) lt by simp_all
  then show ?thesis
    by (auto simp: DecodeImageData_body_def Let_def decode_literal_pos_inv decode_backref_pos_inv
        decode_cache_ref_pos_inv split: prod.split)
qed

subsection \<open>Tiles\<close>

lemma same_tables_GetHtreeGroupForPos:
  "same_tables h1 h2 \<Longrightarrow> GetHtreeGroupForPos h1 = GetHtreeGroupForPos h2"
  by (simp add: same_tables_def GetHtreeGroupForPos_def fun_eq_iff)

lemma int_and_mask: "int x AND (2 ^ n - 1) = int (x mod 2 ^ n)"
proof -
  have "(2::int) ^ n - 1 = mask n" by (simp add: mask_eq_exp_minus_1)
  then show ?thesis by (simp add: take_bit_eq_mask [symmetric] take_bit_eq_mod of_nat_mod)
qed

lemma tile_step:
  assumes "hdr_wf hdr" "(int (Suc x) AND huffman_mask hdr) \<noteq> 0"
  shows "GetHtreeGroupForPos hdr (Suc x) y = GetHtreeGroupForPos hdr x y"
proof (cases "huffman_subsample_bits hdr = 0")
  case True
  then show ?thesis by (simp add: GetHtreeGroupForPos_def GetMetaIndex_def)
next
  case False
  let ?b = "huffman_subsample_bits hdr"
  have "huffman_mask hdr = 2 ^ ?b - 1"
    using assms(1) False by (simp add: hdr_wf_def)
  then have "int (Suc x) AND huffman_mask hdr = int (Suc x mod 2 ^ ?b)"
    by (simp only: int_and_mask)
  then have "Suc x mod 2 ^ ?b \<noteq> 0"
    using assms(2) by simp
  then have "Suc x div 2 ^ ?b = x div 2 ^ ?b" by (simp add: div_Suc)
  then show ?thesis by (simp add: GetHtreeGroupForPos_def GetMetaIndex_def drop_bit_eq_div)
qed

lemma same_tables_sync [simp]:
  "same_tables h (dec_hdr (dd_dec (DecodeImageData_sync s))) = same_tables h (dec_hdr (dd_dec s))"
  by (simp add: same_tables_def DecodeImageData_sync_def SaveState_def Let_def)

lemma GetHtreeGroupForPos_cache [simp]:
  "GetHtreeGroupForPos (hdr\<lparr>color_cache := x\<rparr>) = GetHtreeGroupForPos hdr"
  "GetHtreeGroupForPos (hdr\<lparr>saved_color_cache := x\<rparr>) = GetHtreeGroupForPos hdr"
  by (simp_all add: GetHtreeGroupForPos_def fun_eq_iff)

lemma grp_ok_pieces [simp]:
  "grp_ok (set_br s b) = grp_ok s" "grp_ok (set_pixel s v) = grp_ok s"
  "grp_ok (flush_cache s) = grp_ok s"
  by (simp_all add: grp_ok_def set_br_def flush_cache_def Let_def)

lemma tile_inv_pieces [simp]:
  "tile_inv (set_br s b) = tile_inv s" "tile_inv (set_pixel s v) = tile_inv s"
  "tile_inv (flush_cache s) = tile_inv s"
  by (simp_all add: tile_inv_def set_br_def flush_cache_def Let_def)

lemma hdr_wf_pieces [simp]:
  "hdr_wf (dec_hdr (dd_dec (set_br s b))) = hdr_wf (dec_hdr (dd_dec s))"
  "hdr_wf (dec_hdr (dd_dec (flush_cache s))) = hdr_wf (dec_hdr (dd_dec s))"
  "hdr_wf (dec_hdr (dd_dec (DecodeImageData_sync s))) = hdr_wf (dec_hdr (dd_dec s))"
  "hdr_wf (dec_hdr (dd_dec (DecodeImageData_tile s))) = hdr_wf (dec_hdr (dd_dec s))"
  by (simp_all add: hdr_wf_def set_br_def flush_cache_def Let_def DecodeImageData_sync_def
      SaveState_def DecodeImageData_tile_def)

text \<open>After the refresh test the group is the one of the current tile.\<close>

lemma tile_sync_grp_ok:
  "tile_inv s \<Longrightarrow> grp_ok (DecodeImageData_tile (DecodeImageData_sync s))"
  by (auto simp: tile_inv_def grp_ok_def DecodeImageData_tile_def DecodeImageData_sync_def
      SaveState_def Let_def)

lemma call_process_grp [simp]:
  "grp_ok (call_process c s) = grp_ok s" "tile_inv (call_process c s) = tile_inv s"
  by (simp_all add: grp_ok_def tile_inv_def)

lemma advance_by_one_tile_inv:
  assumes "grp_ok s" "hdr_wf (dec_hdr (dd_dec s))"
  shows "tile_inv (advance_by_one c s)"
proof (cases "Suc (dd_col s) < ctx_width c")
  case True
  have "(int (Suc (dd_col s)) AND huffman_mask (dec_hdr (dd_dec s))) = 0
        \<or> GetHtreeGroupForPos (dec_hdr (dd_dec s)) (Suc (dd_col s)) (dd_row s) = dd_htree_group s"
    using assms tile_step [of "dec_hdr (dd_dec s)" "dd_col s" "dd_row s"] by (auto simp: grp_ok_def)
  with True show ?thesis by (auto simp: advance_by_one_def tile_inv_def Let_def)
next
  case False
  then show ?thesis by (simp add: advance_by_one_def tile_inv_def Let_def flush_cache_def)
qed


lemma grp_ok_tile_inv: "grp_ok s \<Longrightarrow> tile_inv s"
  by (simp add: grp_ok_def tile_inv_def Let_def)

lemma hdr_wf_set_pixel [simp]: "dec_hdr (dd_dec (set_pixel s v)) = dec_hdr (dd_dec s)"
  by (simp add: set_pixel_def)

lemma decode_literal_tile_inv:
  "grp_ok s \<Longrightarrow> hdr_wf (dec_hdr (dd_dec s)) \<Longrightarrow> tile_inv (step_state (decode_literal c grp code s))"
  by (auto simp: decode_literal_def Let_def advance_by_one_tile_inv grp_ok_tile_inv split: prod.split)

lemma decode_cache_ref_tile_inv:
  "grp_ok s \<Longrightarrow> hdr_wf (dec_hdr (dd_dec s)) \<Longrightarrow> tile_inv (decode_cache_ref c code s)"
  by (simp add: decode_cache_ref_def Let_def advance_by_one_tile_inv)

lemma decode_backref_tile_inv:
  assumes "grp_ok s"
  shows "tile_inv (step_state (decode_backref c grp code s))"
proof -
  have refresh: "tile_inv (if (int (dd_col u) AND huffman_mask (dec_hdr (dd_dec s))) \<noteq> 0
      then u\<lparr>dd_htree_group := GetHtreeGroupForPos (dec_hdr (dd_dec s)) (dd_col u) (dd_row u)\<rparr> else u)"
    if "dec_hdr (dd_dec u) = dec_hdr (dd_dec s)" for u :: "'a dd_state"
    using that by (simp add: tile_inv_def Let_def)
  show ?thesis
    using assms refresh
    by (auto simp: decode_backref_def Let_def grp_ok_tile_inv split: prod.split)
qed

lemma DecodeImageData_body_tile_inv:
  assumes "tile_inv s" "hdr_wf (dec_hdr (dd_dec s))"
  shows "tile_inv (step_state (DecodeImageData_body c s))"
proof -
  let ?t = "DecodeImageData_tile (DecodeImageData_sync s)"
  have "grp_ok ?t" "hdr_wf (dec_hdr (dd_dec ?t))"
    using assms by (simp_all add: tile_sync_grp_ok)
  then show ?thesis
    by (auto simp: DecodeImageData_body_def Let_def decode_literal_tile_inv decode_backref_tile_inv
        decode_cache_ref_tile_inv grp_ok_tile_inv split: prod.split)
qed


lemma dec_hdr_pieces [simp]:
  "dec_hdr (dd_dec (set_br s b)) = dec_hdr (dd_dec s)"
  "dec_hdr (dd_dec (DecodeImageData_tile s)) = dec_hdr (dd_dec s)"
  "dec_hdr (dd_dec (call_process c s)) = dec_hdr (dd_dec s)"
  by (simp_all add: set_br_def DecodeImageData_tile_def Let_def)

lemma same_tables_flush [simp]:
  "same_tables h (dec_hdr (dd_dec (flush_cache s))) = same_tables h (dec_hdr (dd_dec s))"
  by (simp add: same_tables_def flush_cache_def Let_def)

lemma same_tables_advance_by_one [simp]:
  "same_tables h (dec_hdr (dd_dec (advance_by_one c s))) = same_tables h (dec_hdr (dd_dec s))"
  by (simp add: advance_by_one_def Let_def)

lemma DecodeImageData_body_same_tables:
  "same_tables h (dec_hdr (dd_dec (step_state (DecodeImageData_body c s))))
   = same_tables h (dec_hdr (dd_dec s))"
  by (auto simp: DecodeImageData_body_def decode_literal_def decode_backref_def decode_cache_ref_def
      Let_def split: prod.split)

lemma same_tables_hdr_wf: "same_tables h1 h2 \<Longrightarrow> hdr_wf h1 = hdr_wf h2"
  by (simp add: same_tables_def hdr_wf_def)

lemma sync_tile_pos [simp]:
  "dd_col (DecodeImageData_sync s) = dd_col s" "dd_row (DecodeImageData_sync s) = dd_row s"
  "dd_col (DecodeImageData_tile s) = dd_col s" "dd_row (DecodeImageData_tile s) = dd_row s"
  "GetHtreeGroupForPos (dec_hdr (dd_dec (DecodeImageData_sync s))) = GetHtreeGroupForPos (dec_hdr (dd_dec s))"
  by (simp_all add: DecodeImageData_sync_def DecodeImageData_tile_def SaveState_def Let_def)

subsection \<open>The colour cache\<close>

text \<open>Changing the state without touching the cache, the window or the pixels before \<open>src\<close>.\<close>

lemma cache_inv_frame:
  assumes "cache_inv s0 s" "dd_last_cached t = dd_last_cached s" "dd_src s \<le> dd_src t"
    "color_cache (dec_hdr (dd_dec t)) = color_cache (dec_hdr (dd_dec s))"
    "\<And>i. i < dd_src s \<Longrightarrow> dd_data t ! i = dd_data s ! i"
  shows "cache_inv s0 t"
proof -
  have m: "map ((!) (dd_data t)) [dd_last_cached s0..<dd_last_cached s]
        = map ((!) (dd_data s)) [dd_last_cached s0..<dd_last_cached s]"
    using assms(1,5) by (auto simp: cache_inv_def)
  show ?thesis using assms(1-4) unfolding cache_inv_def assms(2) m by simp
qed

lemma cache_inv_flush:
  assumes "cache_inv s0 s"
  shows "cache_inv s0 (flush_cache s)"
proof (cases "dd_last_cached s < dd_src s")
  case True
  have "[dd_last_cached s0..<dd_src s] = [dd_last_cached s0..<dd_last_cached s] @ [dd_last_cached s..<dd_src s]"
    using assms True upt_add_eq_append [of "dd_last_cached s0" "dd_last_cached s" "dd_src s - dd_last_cached s"]
    by (simp add: cache_inv_def)
  then show ?thesis
    using assms True by (simp add: cache_inv_def flush_cache_def Let_def cc_insert_all_append)
next
  case False
  then show ?thesis using assms by (simp add: flush_cache_def)
qed

lemma cache_inv_pieces:
  "cache_inv s0 s \<Longrightarrow> cache_inv s0 (set_br s b)"
  "cache_inv s0 s \<Longrightarrow> cache_inv s0 (DecodeImageData_tile s)"
  "cache_inv s0 s \<Longrightarrow> cache_inv s0 (DecodeImageData_sync s)"
  "cache_inv s0 s \<Longrightarrow> cache_inv s0 (call_process c s)"
  by (simp_all add: cache_inv_def set_br_def DecodeImageData_tile_def DecodeImageData_sync_def
      SaveState_def Let_def)

lemma cache_inv_set_pixel: "cache_inv s0 s \<Longrightarrow> cache_inv s0 (set_pixel s v)"
  by (rule cache_inv_frame) (auto simp: set_pixel_def nth_list_update)

lemma cache_inv_advance_by_one: "cache_inv s0 s \<Longrightarrow> cache_inv s0 (advance_by_one c s)"
  unfolding advance_by_one_def Let_def
  by (auto intro!: cache_inv_flush cache_inv_pieces(4) intro: cache_inv_frame)


lemma cache_inv_advance_rows: "cache_inv s0 s \<Longrightarrow> cache_inv s0 (advance_rows c s)"
  by (rule cache_inv_frame) simp_all

lemma cache_inv_refresh:
  "cache_inv s0 s \<Longrightarrow> cache_inv s0 (if b then s\<lparr>dd_htree_group := g\<rparr> else s)"
  by (simp add: cache_inv_def)

lemma decode_backref_cache_inv:
  assumes "cache_inv s0 s" "pos_inv c s"
  shows "cache_inv s0 (step_state (decode_backref c grp code s))"
proof -
  obtain len br1 where l: "GetCopyLength (code - NUM_LITERAL_CODES) (dec_br (dd_dec s)) = (len, br1)"
    by fastforce
  obtain dsym br2 where d: "ReadSymbol (huffman_tables (dec_hdr (dd_dec s))) (htrees grp ! DIST) br1 = (dsym, br2)"
    by fastforce
  obtain dcode br3 where e: "GetCopyDistance dsym br2 = (dcode, br3)"
    by fastforce
  let ?dist = "PlaneCodeToDistance (ctx_width c) dcode"
  let ?u = "set_br s br3\<lparr>dd_data := CopyBlock32b (ctx_data_addr c + 4 * dd_src s) (dd_data s) (dd_src s) ?dist len,
                 dd_src := dd_src s + len, dd_col := dd_col s + len\<rparr>"
  have u: "cache_inv s0 ?u"
    if ok: "\<not> (dd_src s < ?dist \<or> ctx_width c * ctx_height c - dd_src s < len)"
  proof (rule cache_inv_frame [OF assms(1)])
    have len: "dd_src s + len \<le> length (dd_data s)"
      using ok assms(2) by (auto simp: pos_inv_def)
    have "CopyBlock32b (ctx_data_addr c + 4 * dd_src s) (dd_data s) (dd_src s) ?dist len
          = copy_fwd (dd_data s) (dd_src s) (dd_src s - ?dist) len"
      using ok len PlaneCodeToDistance_pos [of "ctx_width c" dcode] by (simp add: CopyBlock32b_copy_fwd)
    then show "\<And>i. i < dd_src s \<Longrightarrow> dd_data ?u ! i = dd_data s ! i"
      by (simp add: copy_fwd_outside)
  qed (simp_all add: set_br_def)
  show ?thesis
    using assms(1) u
    by (auto simp: decode_backref_def Let_def l d e cache_inv_pieces(1) cache_inv_refresh
        cache_inv_advance_rows cache_inv_flush)
qed


lemma advance_by_one_data [simp]: "dd_data (advance_by_one c s) = dd_data s"
  by (simp add: advance_by_one_def Let_def)

lemma DecodeImageData_body_cache_inv:
  assumes "cache_inv s0 s" "pos_inv c s"
  shows "cache_inv s0 (step_state (DecodeImageData_body c s))"
proof -
  let ?t = "DecodeImageData_tile (DecodeImageData_sync s)"
  have t: "cache_inv s0 ?t" "pos_inv c ?t" using assms by (simp_all add: cache_inv_pieces)
  have lit: "cache_inv s0 (step_state (decode_literal c grp code u))" if "cache_inv s0 u" for u grp code
    using that by (auto simp: decode_literal_def Let_def cache_inv_pieces cache_inv_set_pixel
        cache_inv_advance_by_one split: prod.split)
  have cref: "cache_inv s0 (decode_cache_ref c code u)" if "cache_inv s0 u" for u code
    using that by (simp add: decode_cache_ref_def Let_def cache_inv_flush cache_inv_set_pixel
        cache_inv_advance_by_one)
  have bref: "cache_inv s0 (step_state (decode_backref c grp code (set_br ?t b)))" for grp code b
    using t by (intro decode_backref_cache_inv) (simp_all add: cache_inv_pieces)
  show ?thesis
    using t lit cref bref
    by (auto simp: DecodeImageData_body_def Let_def cache_inv_pieces(1) split: prod.split)
qed

lemma flush_cache_window: "dd_src s \<le> dd_last_cached (flush_cache s)"
  by (simp add: flush_cache_def Let_def)

lemma sync_row [simp]: "dd_row (DecodeImageData_sync s) < dd_next_sync_row (DecodeImageData_sync s)"
  by (simp add: DecodeImageData_sync_def SYNC_EVERY_N_ROWS_def)

lemma sync_inv_set_br [simp]: "sync_inv (set_br s b) = sync_inv s"
  by (simp add: sync_inv_def)

lemma sync_inv_flush [simp]: "sync_inv (if cache_on s then flush_cache s else s)"
  by (simp add: sync_inv_def flush_cache_def Let_def)

lemma sync_inv_row: "dd_row s < dd_next_sync_row s \<Longrightarrow> sync_inv s"
  by (simp add: sync_inv_def)

lemma sync_inv_advance_by_one:
  assumes "dd_row s < dd_next_sync_row s"
  shows "sync_inv (advance_by_one c s)"
proof (cases "ctx_width c \<le> Suc (dd_col s)")
  case True
  let ?u = "call_process c (s\<lparr>dd_src := Suc (dd_src s), dd_col := 0, dd_row := Suc (dd_row s)\<rparr>)"
  have "advance_by_one c s = (if cache_on ?u then flush_cache ?u else ?u)"
    using True by (simp add: advance_by_one_def Let_def)
  then show ?thesis by (simp only: sync_inv_flush)
next
  case False
  then show ?thesis using assms by (simp add: advance_by_one_def sync_inv_def)
qed

lemma DecodeImageData_body_sync_inv: "sync_inv (step_state (DecodeImageData_body c s))"
proof -
  let ?t = "DecodeImageData_tile (DecodeImageData_sync s)"
  have r: "dd_row ?t < dd_next_sync_row ?t"
    using sync_row [of s] by (simp add: DecodeImageData_tile_def Let_def)
  have lit: "sync_inv (step_state (decode_literal c grp code u))"
    if "dd_row u < dd_next_sync_row u" for u grp code
    using that by (auto simp: decode_literal_def Let_def sync_inv_advance_by_one sync_inv_row
        split: prod.split)
  have cref: "sync_inv (decode_cache_ref c code u)" if "dd_row u < dd_next_sync_row u" for u code
    using that by (simp add: decode_cache_ref_def Let_def sync_inv_advance_by_one)
  have bref: "sync_inv (step_state (decode_backref c grp code u))"
    if "dd_row u < dd_next_sync_row u" for u grp code
    using that by (auto simp: decode_backref_def Let_def sync_inv_row split: prod.split)
  show ?thesis
    using r lit cref bref by (auto simp: DecodeImageData_body_def Let_def sync_inv_def split: prod.split)
qed

subsection \<open>All invariants\<close>

lemma advance_by_one_frame [simp]:
  "dec_incremental (dd_dec (advance_by_one c s)) = dec_incremental (dd_dec s)"
  "dd_next_sync_row (advance_by_one c s) = dd_next_sync_row s"
  by (simp_all add: advance_by_one_def Let_def)

lemma tile_frame [simp]:
  "dec_incremental (dd_dec (DecodeImageData_tile s)) = dec_incremental (dd_dec s)"
  "dd_next_sync_row (DecodeImageData_tile s) = dd_next_sync_row s"
  by (simp_all add: DecodeImageData_tile_def Let_def)

lemma branches_frame:
  "dec_incremental (dd_dec (step_state (decode_literal c g code s))) = dec_incremental (dd_dec s)
   \<and> dd_next_sync_row (step_state (decode_literal c g code s)) = dd_next_sync_row s"
  "dec_incremental (dd_dec (step_state (decode_backref c g code s))) = dec_incremental (dd_dec s)
   \<and> dd_next_sync_row (step_state (decode_backref c g code s)) = dd_next_sync_row s"
  "dec_incremental (dd_dec (decode_cache_ref c code s)) = dec_incremental (dd_dec s)
   \<and> dd_next_sync_row (decode_cache_ref c code s) = dd_next_sync_row s"
  by (simp_all add: decode_literal_def decode_backref_def decode_cache_ref_def Let_def split: prod.split)

lemma DecodeImageData_body_frame:
  "dec_incremental (dd_dec (step_state (DecodeImageData_body c s))) = dec_incremental (dd_dec s)
   \<and> dd_next_sync_row (step_state (DecodeImageData_body c s)) = dd_next_sync_row (DecodeImageData_sync s)"
proof -
  have "dec_incremental (dd_dec (DecodeImageData_sync s)) = dec_incremental (dd_dec s)"
    by (simp add: DecodeImageData_sync_def SaveState_def Let_def)
  then show ?thesis
    by (simp add: DecodeImageData_body_def Let_def branches_frame split: prod.split)
qed

lemma pos_inv_row: "pos_inv c s \<Longrightarrow> dd_row s \<le> ctx_height c"
proof -
  assume p: "pos_inv c s"
  then have "dd_row s * ctx_width c \<le> dd_src s" "dd_src s \<le> ctx_height c * ctx_width c"
    by (simp_all add: pos_inv_def mult.commute)
  then have "dd_row s * ctx_width c \<le> ctx_height c * ctx_width c" by (rule order_trans)
  with p show ?thesis by (simp add: pos_inv_def)
qed

lemma DecodeImageData_init_inv:
  assumes "0 < ctx_width c" "dec_last_pixel dec \<le> ctx_width c * ctx_height c"
    "length data = ctx_width c * ctx_height c"
  shows "dd_inv c (DecodeImageData_init dec data (ctx_width c)) (DecodeImageData_init dec data (ctx_width c))"
  using assms
  by (simp add: dd_inv_def pos_inv_def cache_inv_def sync_inv_def DecodeImageData_init_def Let_def
      cc_insert_all_def)

lemma DecodeImageData_reach_inv:
  assumes "dd_reach c s0 s" "dd_inv c s0 s0" "ctx_last_row c \<le> ctx_height c" "ctx_height c \<le> 16384"
  shows "dd_inv c s0 s"
proof (rule dd_reach_inv [where P = "dd_inv c s0", OF assms(1,2)])
  fix t :: "'a dd_state"
  assume t: "dd_inv c s0 t" "dd_src t < ctx_width c * ctx_last_row c"
  let ?t' = "step_state (DecodeImageData_body c t)"
  have pos: "pos_inv c t" and ci: "cache_inv s0 t" using t(1) by (simp_all add: dd_inv_def)
  have row: "dd_row t < 16777216" using pos_inv_row [OF pos] assms(4) by simp
  have "pos_inv c ?t'" using DecodeImageData_body_pos_inv [OF pos t(2) assms(3)] .
  moreover have "cache_inv s0 ?t'" using DecodeImageData_body_cache_inv [OF ci pos] .
  moreover have "sync_inv ?t'" by (rule DecodeImageData_body_sync_inv)
  moreover have "dec_incremental (dd_dec ?t') = dec_incremental (dd_dec t)"
    "dd_next_sync_row ?t' = dd_next_sync_row (DecodeImageData_sync t)"
    using DecodeImageData_body_frame [of c t] by simp_all
  ultimately show "dd_inv c s0 ?t'"
    using t(1) row by (auto simp: dd_inv_def DecodeImageData_sync_def)
qed

lemma DecodeImageData_pre_reach:
  assumes "DecodeImageData_pre c dec data" "dd_reach c (DecodeImageData_init dec data (ctx_width c)) s"
  shows "dd_inv c (DecodeImageData_init dec data (ctx_width c)) s"
proof (rule DecodeImageData_reach_inv [OF assms(2)])
  show "dd_inv c (DecodeImageData_init dec data (ctx_width c)) (DecodeImageData_init dec data (ctx_width c))"
    using assms(1) by (intro DecodeImageData_init_inv) (simp_all add: DecodeImageData_pre_def)
  show "ctx_last_row c \<le> ctx_height c" "ctx_height c \<le> 16384"
    using assms(1) by (simp_all add: DecodeImageData_pre_def)
qed

subsection \<open>How the loop ends\<close>

lemma decode_branches_break_eos:
  "decode_literal c g code s = Break s' \<Longrightarrow> br_eos (dec_br (dd_dec s'))"
  "decode_backref c g code s = Break s' \<Longrightarrow> br_eos (dec_br (dd_dec s'))"
  by (auto simp: decode_literal_def decode_backref_def Let_def split: prod.splits if_splits)

text \<open>The loop only \<open>break\<close>s when the bit reader has run out.\<close>

lemma DecodeImageData_body_break_eos:
  "DecodeImageData_body c s = Break s' \<Longrightarrow> br_eos (dec_br (dd_dec s'))"
  by (auto simp: DecodeImageData_body_def Let_def split: prod.splits if_splits
      dest: decode_branches_break_eos)

lemma DecodeImageData_loop_not_eos:
  assumes "DecodeImageData_loop c s0 = (True, s)" "\<not> br_eos (dec_br (dd_dec s))"
  shows "ctx_width c * ctx_last_row c \<le> dd_src s"
  using DecodeImageData_loop_result [OF assms(1) reach_init] assms(2)
  by (auto dest: DecodeImageData_body_break_eos)

lemma call_process_final_frame [simp]:
  "dd_src (call_process_final c s) = dd_src s" "dd_data (call_process_final c s) = dd_data s"
  by (simp_all add: call_process_final_def split: option.split)

text \<open>A colour-cache reference flushes the window, so it reads the eager cache.\<close>

lemma decode_cache_ref_lookup:
  assumes "cache_inv s0 t" "dd_src t < length (dd_data t)"
  shows "dd_data (decode_cache_ref c code t) ! dd_src t
         = VP8LColorCacheLookup (cc_insert_all (color_cache (dec_hdr (dd_dec s0)))
              (map (\<lambda>i. dd_data t ! i) [dd_last_cached s0..<dd_src t]))
              (code - (NUM_LITERAL_CODES + NUM_LENGTH_CODES))"
proof -
  let ?f = "flush_cache t"
  have ci: "cache_inv s0 ?f" using assms(1) by (rule cache_inv_flush)
  have "dd_last_cached ?f = dd_src t"
    using assms(1) by (auto simp: cache_inv_def flush_cache_def Let_def)
  then have "color_cache (dec_hdr (dd_dec ?f)) = cc_insert_all (color_cache (dec_hdr (dd_dec s0)))
              (map (\<lambda>i. dd_data t ! i) [dd_last_cached s0..<dd_src t])"
    using ci by (simp add: cache_inv_def)
  then show ?thesis
    using assms(2) by (simp add: decode_cache_ref_def Let_def)
qed

end
