(* ===== verification/DecodeProps.thy ===== *)
theory DecodeProps
  imports DecodeInv
begin

text \<open>
  The properties of the entropy decoder's main loop (\<open>DecodeImageData\<close>, vp8l.cpp lines
  987--1116), stated over the states the loop reaches from its entry state
  \<open>DecodeImageData_init\<close> under the preconditions \<open>DecodeImageData_pre\<close>, and the small
  decoder the witnesses run on.  The fixture decoder has one group of Huffman trees
  whose green tree decodes every bit string as the literal 7 and whose distance tree
  decodes it as the distance symbol 1, a two-slot colour cache and a zero bit stream.
\<close>

definition fx_grp :: htree_group where
  "fx_grp = \<lparr>htrees = [0, 0, 0, 0, 1], is_trivial_literal = True, literal_arb = 0xff000000\<rparr>"

definition fx_hdr :: vp8l_metadata where
  "fx_hdr = \<lparr>color_cache_size = 2, color_cache = VP8LColorCacheInit 1,
     saved_color_cache = VP8LColorCacheInit 1, huffman_mask = -1, huffman_subsample_bits = 0,
     huffman_xsize = 2, huffman_image = [], num_htree_groups = 1, htree_groups = [fx_grp],
     huffman_tables = [\<lparr>hc_bits = 0, hc_value = 7\<rparr>, \<lparr>hc_bits = 0, hc_value = 1\<rparr>]\<rparr>"

definition fx_dec :: "unit vp8l_decoder" where
  "fx_dec = \<lparr>dec_status = VP8_STATUS_OK, dec_state = READ_DATA, dec_next_transform = 0,
     dec_transforms_seen = 0, dec_transforms = [], dec_br = VP8LInitBitReader [0, 0, 0, 0, 0, 0, 0, 0],
     dec_saved_br = VP8LInitBitReader [0, 0, 0, 0, 0, 0, 0, 0], dec_last_pixel = 0,
     dec_saved_last_pixel = 0, dec_incremental = True, dec_width = 2, dec_height = 2,
     dec_hdr = fx_hdr, dec_io = ()\<rparr>"

definition fx_ctx :: "unit dd_ctx" where
  "fx_ctx = \<lparr>ctx_width = 2, ctx_height = 2, ctx_last_row = 2, ctx_process_func = None,
     ctx_data_addr = 0\<rparr>"

definition fx_state :: "unit dd_state" where
  "fx_state = \<lparr>dd_dec = fx_dec\<lparr>dec_hdr := fx_hdr\<lparr>color_cache_size := 0\<rparr>\<rparr>, dd_data = [7, 0, 0, 0],
     dd_src = 1, dd_col = 1, dd_row = 0, dd_last_cached = 1, dd_htree_group = 0,
     dd_next_sync_row = 16777216\<rparr>"

text \<open>The same decoder without incremental decoding, and one resumed at the end of the raster.\<close>

definition fx_dec_batch :: "unit vp8l_decoder" where
  "fx_dec_batch = fx_dec\<lparr>dec_incremental := False\<rparr>"

definition fx_dec_done :: "unit vp8l_decoder" where
  "fx_dec_done = fx_dec\<lparr>dec_last_pixel := 4\<rparr>"

lemmas fx_defs = fx_grp_def fx_hdr_def fx_dec_def fx_ctx_def fx_state_def

subsection \<open>Back-references\<close>


lemma decode_backref_frame:
  "dd_data (if b then u\<lparr>dd_htree_group := g\<rparr> else u) = dd_data u"
  "dd_src (if b then u\<lparr>dd_htree_group := g\<rparr> else u) = dd_src u"
  "dd_data (if cache_on u then flush_cache u else u) = dd_data u"
  "dd_src (if cache_on u then flush_cache u else u) = dd_src u"
  by simp_all

text \<open>
  C9. A back-reference the decoder accepts is one \<open>CopyBlock32b\<close> is correct for, and
  it writes the run-length pattern: when the back-reference branch continues, the
  distance is at least 1 and at most \<open>src\<close>, the run ends inside the pixel buffer, the
  buffer afterwards is what the forward pixel loop writes, and \<open>src\<close> advances by the
  length.
\<close>

theorem decode_backref_copy:
  assumes "decode_backref c grp code s = Continue s'" "pos_inv c s"
  shows "\<exists>len dist. 0 < dist \<and> dist \<le> dd_src s \<and> dd_src s + len \<le> length (dd_data s)
           \<and> dd_src s' = dd_src s + len
           \<and> dd_data s' = copy_fwd (dd_data s) (dd_src s) (dd_src s - dist) len"
proof -
  obtain len br1 where l: "GetCopyLength (code - NUM_LITERAL_CODES) (dec_br (dd_dec s)) = (len, br1)"
    by fastforce
  obtain dsym br2 where d: "ReadSymbol (huffman_tables (dec_hdr (dd_dec s))) (htrees grp ! DIST) br1 = (dsym, br2)"
    by fastforce
  obtain dcode br3 where e: "GetCopyDistance dsym br2 = (dcode, br3)"
    by fastforce
  let ?dist = "PlaneCodeToDistance (ctx_width c) dcode"
  have ok: "\<not> br_eos br3" "\<not> (dd_src s < ?dist \<or> ctx_width c * ctx_height c - dd_src s < len)"
    using assms(1) by (auto simp: decode_backref_def Let_def l d e split: if_splits)
  let ?t = "set_br s br3\<lparr>dd_data := CopyBlock32b (ctx_data_addr c + 4 * dd_src s) (dd_data s) (dd_src s) ?dist len,
                 dd_src := dd_src s + len, dd_col := dd_col s + len\<rparr>"
  have s': "dd_data s' = dd_data ?t \<and> dd_src s' = dd_src ?t"
    using assms(1) ok by (auto simp: decode_backref_def Let_def l d e)
  have len: "dd_src s + len \<le> length (dd_data s)"
    using ok(2) assms(2) by (auto simp: pos_inv_def)
  have "dd_data ?t = copy_fwd (dd_data s) (dd_src s) (dd_src s - ?dist) len"
    using ok(2) len PlaneCodeToDistance_pos [of "ctx_width c" dcode]
    by (simp add: CopyBlock32b_copy_fwd)
  then show ?thesis
    using s' ok(2) len PlaneCodeToDistance_pos [of "ctx_width c" dcode]
    by (intro exI [of _ len] exI [of _ ?dist]) auto
qed

theorem decode_backref_copy_witness:
  "\<exists>s'. decode_backref fx_ctx fx_grp 256 fx_state = Continue s'
     \<and> (\<exists>len dist. 0 < dist \<and> dist \<le> 1 \<and> 1 + len \<le> 4 \<and> dd_src s' = 1 + len
          \<and> dd_data s' = copy_fwd [7, 0, 0, 0] 1 (1 - dist) len)"
proof -
  obtain s' where s': "decode_backref fx_ctx fx_grp 256 fx_state = Continue s'"
    by (simp add: decode_backref_def fx_defs Let_def ReadSymbol_def VP8LPrefetchBits_zero
        VP8LInitBitReader_def GetCopyLength_def GetCopyDistance_def PlaneCodeToDistance_def
        kCodeToPlane_def set_br_def VP8LSetBitPos_def VP8LIsEndOfStream_def DIST_def
        HUFFMAN_TABLE_BITS_def HUFFMAN_TABLE_MASK_def)
  have "pos_inv fx_ctx fx_state" by (simp add: pos_inv_def fx_defs)
  with decode_backref_copy [OF s'] show ?thesis
    using s' by (simp add: fx_state_def numeral_3_eq_3)
qed

subsection \<open>Tiles\<close>

text \<open>
  C10. Tile selection (spec, section 4.4): the group is looked up again only when the
  column starts a tile, or after a back-reference that ends inside one; still, every
  symbol of every pass of the loop is decoded with the Huffman group of the tile of
  the current pixel, \<open>image[xsize * (y >> bits) + (x >> bits)]\<close>.
\<close>

theorem DecodeImageData_tile_group:
  assumes "dd_reach c (DecodeImageData_init dec data w) s" "hdr_wf (dec_hdr dec)"
  shows "dd_htree_group (DecodeImageData_tile (DecodeImageData_sync s))
         = GetHtreeGroupForPos (dec_hdr dec) (dd_col s) (dd_row s)"
proof -
  let ?P = "\<lambda>t. tile_inv t \<and> same_tables (dec_hdr dec) (dec_hdr (dd_dec t))"
  have "?P s"
  proof (rule dd_reach_inv [OF assms(1)])
    show "?P (DecodeImageData_init dec data w)"
      by (simp add: DecodeImageData_init_def tile_inv_def same_tables_def Let_def)
  next
    fix t :: "'a dd_state" assume P: "?P t"
    then have "hdr_wf (dec_hdr (dd_dec t))" using assms(2) same_tables_hdr_wf by blast
    then show "?P (step_state (DecodeImageData_body c t))"
      using P DecodeImageData_body_tile_inv DecodeImageData_body_same_tables by blast
  qed
  then show ?thesis
    using tile_sync_grp_ok [of s] same_tables_GetHtreeGroupForPos
    by (auto simp: grp_ok_def)
qed

theorem DecodeImageData_tile_group_witness:
  "dd_htree_group (DecodeImageData_tile (DecodeImageData_sync (DecodeImageData_init fx_dec [0, 0, 0, 0] 2))) = 0"
proof -
  have "hdr_wf (dec_hdr fx_dec)" by (simp add: hdr_wf_def fx_defs)
  from DecodeImageData_tile_group [OF dd_reach.reach_init [of fx_ctx] this]
  show ?thesis
    by (simp add: fx_defs DecodeImageData_init_def GetHtreeGroupForPos_def GetMetaIndex_def)
qed

subsection \<open>Positions and the colour cache\<close>

text \<open>
  C11. Position tracking (spec, section 4.5): in every state the loop reaches,
  \<open>src = row * width + col\<close> with \<open>col < width\<close>, \<open>src\<close> stays inside the raster and the
  pixel buffer keeps its size, through literals, row ends and back-references that
  cross several rows.
\<close>

theorem DecodeImageData_positions:
  assumes "DecodeImageData_pre c dec data"
    and "dd_reach c (DecodeImageData_init dec data (ctx_width c)) s"
  shows "dd_src s = dd_row s * ctx_width c + dd_col s \<and> dd_col s < ctx_width c
         \<and> dd_src s \<le> ctx_width c * ctx_height c \<and> length (dd_data s) = ctx_width c * ctx_height c"
  using DecodeImageData_pre_reach [OF assms] by (simp add: dd_inv_def pos_inv_def)

lemma fx_pre: "DecodeImageData_pre fx_ctx fx_dec [0, 0, 0, 0]"
  by (simp add: DecodeImageData_pre_def fx_defs)

theorem DecodeImageData_positions_witness:
  "dd_src (DecodeImageData_init fx_dec [0, 0, 0, 0] 2) = 0 * 2 + 0"
  using DecodeImageData_positions [OF fx_pre dd_reach.reach_init]
  by (simp add: fx_defs DecodeImageData_init_def)

text \<open>
  C12. Lazy colour-cache insertion (spec, section 3 "ColorCache"): the loop inserts
  pixels into the cache only at row ends, before a cache lookup and after a
  back-reference; in every state it reaches, the pixels not yet inserted are exactly
  those from \<open>last_cached\<close> to \<open>src\<close>, and the cache is the entry cache with every
  earlier pixel of this call inserted in raster order.
\<close>

theorem DecodeImageData_cache_lazy:
  assumes "DecodeImageData_pre c dec data"
    and "dd_reach c (DecodeImageData_init dec data (ctx_width c)) s"
  shows "dec_last_pixel dec \<le> dd_last_cached s \<and> dd_last_cached s \<le> dd_src s
         \<and> color_cache (dec_hdr (dd_dec s)) = cc_insert_all (color_cache (dec_hdr dec))
              (map (\<lambda>i. dd_data s ! i) [dec_last_pixel dec..<dd_last_cached s])"
  using DecodeImageData_pre_reach [OF assms]
  by (simp add: dd_inv_def cache_inv_def DecodeImageData_init_def Let_def)

theorem DecodeImageData_cache_lazy_witness:
  "color_cache (dec_hdr (dd_dec (DecodeImageData_init fx_dec [0, 0, 0, 0] 2)))
   = cc_insert_all (color_cache fx_hdr) []"
  using DecodeImageData_cache_lazy [OF fx_pre dd_reach.reach_init]
  by (simp add: fx_defs DecodeImageData_init_def)

text \<open>
  C13. The lazy cache refines the eager one: the pixel a colour-cache reference writes
  is the lookup of its key in the cache that holds every pixel decoded by this call
  before it, inserted in raster order, exactly as if each pixel had been inserted as
  soon as it was written.
\<close>

theorem decode_cache_ref_eager:
  assumes "DecodeImageData_pre c dec data"
    and "dd_reach c (DecodeImageData_init dec data (ctx_width c)) s"
    and "dd_src s < ctx_width c * ctx_last_row c"
  shows "dd_data (decode_cache_ref c code (set_br (DecodeImageData_tile (DecodeImageData_sync s)) b)) ! dd_src s
         = VP8LColorCacheLookup (cc_insert_all (color_cache (dec_hdr dec))
              (map (\<lambda>i. dd_data s ! i) [dec_last_pixel dec..<dd_src s]))
              (code - (NUM_LITERAL_CODES + NUM_LENGTH_CODES))"
proof -
  let ?s0 = "DecodeImageData_init dec data (ctx_width c)"
  let ?t = "set_br (DecodeImageData_tile (DecodeImageData_sync s)) b"
  have inv: "dd_inv c ?s0 s" using DecodeImageData_pre_reach [OF assms(1,2)] .
  then have "cache_inv ?s0 ?t" by (simp add: dd_inv_def cache_inv_pieces)
  moreover have "dd_src ?t < length (dd_data ?t)"
  proof -
    have "ctx_width c * ctx_last_row c \<le> ctx_width c * ctx_height c"
      using assms(1) by (simp add: DecodeImageData_pre_def)
    with assms(3) have "dd_src s < ctx_width c * ctx_height c" by (rule less_le_trans)
    then show ?thesis using inv by (simp add: dd_inv_def pos_inv_def)
  qed
  ultimately show ?thesis
    using decode_cache_ref_lookup [of ?s0 ?t c code]
    by (simp add: DecodeImageData_init_def Let_def)
qed

theorem decode_cache_ref_eager_witness:
  "dd_data (decode_cache_ref fx_ctx 280
      (set_br (DecodeImageData_tile (DecodeImageData_sync (DecodeImageData_init fx_dec [0, 0, 0, 0] 2)))
        (VP8LInitBitReader []))) ! 0
   = VP8LColorCacheLookup (cc_insert_all (color_cache fx_hdr) []) 0"
  using decode_cache_ref_eager [OF fx_pre dd_reach.reach_init, of 280 "VP8LInitBitReader []"]
  by (simp add: fx_defs DecodeImageData_init_def)

subsection \<open>Snapshots\<close>

text \<open>
  C14. The incremental snapshot holds the whole cache: whenever the loop takes a
  snapshot (\<open>row >= next_sync_row\<close>, so \<open>SaveState\<close> copies the cache), no pixel is
  waiting to be inserted, so the saved cache is the entry cache with every pixel
  before the snapshot position inserted.  A resumed decode restarts with
  \<open>last_cached = src\<close>, so no pixel is ever left out of the cache.
\<close>

theorem DecodeImageData_snapshot_cache:
  assumes "DecodeImageData_pre c dec data"
    and "dd_reach c (DecodeImageData_init dec data (ctx_width c)) s"
    and "dd_next_sync_row s \<le> dd_row s" "cache_on s"
  shows "dd_last_cached s = dd_src s
         \<and> color_cache (dec_hdr (dd_dec s)) = cc_insert_all (color_cache (dec_hdr dec))
              (map (\<lambda>i. dd_data s ! i) [dec_last_pixel dec..<dd_src s])"
proof -
  have inv: "dd_inv c (DecodeImageData_init dec data (ctx_width c)) s"
    using DecodeImageData_pre_reach [OF assms(1,2)] .
  then have "dd_last_cached s = dd_src s"
    using assms(3,4) by (auto simp: dd_inv_def sync_inv_def cache_inv_def)
  with inv show ?thesis by (simp add: dd_inv_def cache_inv_def DecodeImageData_init_def Let_def)
qed

theorem DecodeImageData_snapshot_cache_witness:
  "dd_last_cached (DecodeImageData_init fx_dec [0, 0, 0, 0] 2)
   = dd_src (DecodeImageData_init fx_dec [0, 0, 0, 0] 2)"
proof -
  let ?s = "DecodeImageData_init fx_dec [0, 0, 0, 0] (ctx_width fx_ctx)"
  have "dd_next_sync_row ?s \<le> dd_row ?s" "cache_on ?s"
    by (simp_all add: fx_defs DecodeImageData_init_def cache_on_def)
  from DecodeImageData_snapshot_cache [OF fx_pre dd_reach.reach_init this] show ?thesis
    by (simp add: fx_ctx_def)
qed

text \<open>
  C15. \<open>SaveState\<close> asserts incremental decoding: without it the first sync row is
  \<open>1 << 24\<close>, beyond every row of an image at most 16384 rows high, so no state the
  loop reaches ever takes a snapshot.
\<close>

theorem DecodeImageData_no_snapshot:
  assumes "DecodeImageData_pre c dec data"
    and "dd_reach c (DecodeImageData_init dec data (ctx_width c)) s"
    and "\<not> dec_incremental dec"
  shows "dd_row s < dd_next_sync_row s"
proof -
  have inv: "dd_inv c (DecodeImageData_init dec data (ctx_width c)) s"
    using DecodeImageData_pre_reach [OF assms(1,2)] .
  then have "dd_next_sync_row s = 16777216"
    using assms(3) by (simp add: dd_inv_def DecodeImageData_init_def Let_def)
  moreover have "dd_row s \<le> 16384"
    using pos_inv_row [of c s] inv assms(1) by (simp add: dd_inv_def DecodeImageData_pre_def)
  ultimately show ?thesis by simp
qed

theorem DecodeImageData_no_snapshot_witness:
  "dd_row (DecodeImageData_init fx_dec_batch [0, 0, 0, 0] 2)
   < dd_next_sync_row (DecodeImageData_init fx_dec_batch [0, 0, 0, 0] 2)"
proof -
  have "DecodeImageData_pre fx_ctx fx_dec_batch [0, 0, 0, 0]" "\<not> dec_incremental fx_dec_batch"
    by (simp_all add: DecodeImageData_pre_def fx_dec_batch_def fx_defs)
  from DecodeImageData_no_snapshot [OF this(1) dd_reach.reach_init this(2)]
  show ?thesis by (simp add: fx_ctx_def)
qed

subsection \<open>Outcome\<close>

text \<open>
  C16. \<open>DecodeImageData\<close> reports \<open>VP8_STATUS_OK\<close> only when it has decoded every pixel
  up to \<open>last_row\<close>: the loop leaves by \<open>break\<close> only when the bit reader has run out,
  and then the status is \<open>SUSPENDED\<close> or \<open>BITSTREAM_ERROR\<close>; the end-of-scan marker
  \<open>last_pixel_\<close> is set to the final position.
\<close>

theorem DecodeImageData_ok_complete:
  assumes "DecodeImageData dec data width height last_row process_func addr = (r, dec', data')"
    and "dec_status dec' = VP8_STATUS_OK"
  shows "r \<and> width * last_row \<le> dec_last_pixel dec'"
proof -
  define c where "c = \<lparr>ctx_width = width, ctx_height = height, ctx_last_row = last_row,
                       ctx_process_func = process_func, ctx_data_addr = addr\<rparr>"
  obtain ok s where loop: "DecodeImageData_loop c (DecodeImageData_init dec data width) = (ok, s)"
    by fastforce
  have res: "DecodeImageData dec data width height last_row process_func addr =
      (if \<not> ok then (False, (dd_dec s)\<lparr>dec_status := VP8_STATUS_BITSTREAM_ERROR\<rparr>, dd_data s)
       else if dec_incremental (dd_dec s) \<and> br_eos (dec_br (dd_dec s)) \<and> dd_src s < width * height
       then (True, RestoreState (dd_dec s), dd_data s)
       else if \<not> br_eos (dec_br (dd_dec s))
       then (True, (dd_dec (call_process_final c s))\<lparr>dec_status := VP8_STATUS_OK,
               dec_last_pixel := dd_src (call_process_final c s)\<rparr>, dd_data (call_process_final c s))
       else (False, (dd_dec s)\<lparr>dec_status := VP8_STATUS_BITSTREAM_ERROR\<rparr>, dd_data s))"
    using loop by (simp add: DecodeImageData_def c_def Let_def)
  have "ok \<and> \<not> br_eos (dec_br (dd_dec s)) \<and> dec' = (dd_dec (call_process_final c s))\<lparr>dec_status := VP8_STATUS_OK,
               dec_last_pixel := dd_src s\<rparr> \<and> r"
    using assms res by (auto simp: RestoreState_def Let_def split: if_splits)
  moreover have "ctx_width c * ctx_last_row c \<le> dd_src s"
  proof (rule DecodeImageData_loop_not_eos)
    show "DecodeImageData_loop c (DecodeImageData_init dec data width) = (True, s)"
      using calculation loop by simp
    show "\<not> br_eos (dec_br (dd_dec s))" using calculation by simp
  qed
  ultimately show ?thesis by (simp add: c_def)
qed

lemma fx_dec_done_run:
  "DecodeImageData fx_dec_done [0, 0, 0, 0] 2 2 2 None 0
   = (True, fx_dec_done\<lparr>dec_status := VP8_STATUS_OK, dec_last_pixel := 4\<rparr>, [0, 0, 0, 0])"
  by (simp add: DecodeImageData_def DecodeImageData_init_def DecodeImageData_loop_step(1)
      call_process_final_def fx_dec_done_def fx_defs VP8LInitBitReader_def Let_def)

theorem DecodeImageData_ok_complete_witness:
  "2 * 2 \<le> dec_last_pixel (fx_dec_done\<lparr>dec_status := VP8_STATUS_OK, dec_last_pixel := 4\<rparr>)"
  using DecodeImageData_ok_complete [OF fx_dec_done_run] by simp

end
