(* ===== verification/HuffmanCodes.thy ===== *)
theory HuffmanCodes
  imports DecodeStep
begin

text \<open>
  Reading the Huffman codes of an image (vp8l.cpp, lines 26--60 and 197--409): the code
  lengths of one alphabet, either listed directly ("simple" codes of one or two
  symbols) or themselves Huffman-coded with three repeat codes
  (\<open>ReadHuffmanCodeLengths\<close>, \<open>ReadHuffmanCode\<close>), and the five codes of every group
  (\<open>ReadHuffmanCodes\<close>).  The table builder \<open>VP8LBuildHuffmanTable\<close> lives in
  utils/huffman_utils, outside src/: it is a parameter \<open>build\<close> of these definitions,
  a function from the root bits and the code lengths to the table it writes, empty
  where the C function returns size 0.  So is the recursive \<open>DecodeImageStream\<close> call
  that decodes the meta-Huffman image.  A failing read sets the decoder's status to
  \<open>VP8_STATUS_BITSTREAM_ERROR\<close> and returns \<open>False\<close>, as the C functions do.
\<close>

type_synonym huffman_builder = "nat \<Rightarrow> nat list \<Rightarrow> huffman_code list"

definition kCodeLengthLiterals :: nat where "kCodeLengthLiterals = 16"
definition kCodeLengthRepeatCode :: nat where "kCodeLengthRepeatCode = 16"
definition kCodeLengthExtraBits :: "nat list" where "kCodeLengthExtraBits = [2, 3, 7]"
definition kCodeLengthRepeatOffsets :: "nat list" where "kCodeLengthRepeatOffsets = [3, 3, 11]"
definition DEFAULT_CODE_LENGTH :: nat where "DEFAULT_CODE_LENGTH = 8"
definition LENGTHS_TABLE_BITS :: nat where "LENGTHS_TABLE_BITS = 7"
definition LENGTHS_TABLE_MASK :: nat where "LENGTHS_TABLE_MASK = 2 ^ LENGTHS_TABLE_BITS - 1"
definition NUM_CODE_LENGTH_CODES :: nat where "NUM_CODE_LENGTH_CODES = 19"

definition kCodeLengthCodeOrder :: "nat list" where
  "kCodeLengthCodeOrder = [17, 18, 0, 1, 2, 3, 4, 5, 16, 6, 7, 8, 9, 10, 11, 12, 13, 14, 15]"

text \<open>\<open>while (repeat-- > 0) code_lengths[symbol++] = length;\<close>\<close>

primrec fill_run :: "nat list \<Rightarrow> nat \<Rightarrow> nat \<Rightarrow> nat \<Rightarrow> nat list" where
  "fill_run cl i 0 v = cl"
| "fill_run cl i (Suc r) v = fill_run (cl[i := v]) (Suc i) r v"

text \<open>
  The loop of \<open>ReadHuffmanCodeLengths\<close>: \<open>while (symbol < num_symbols) { if
  (max_symbol-- == 0) break; ... }\<close>.  It recurses on \<open>max_symbol\<close>, which every pass
  decrements.  The result is \<open>ok\<close>, the code lengths as written and the reader.
\<close>

fun code_lengths_loop ::
  "huffman_code list \<Rightarrow> nat \<Rightarrow> nat \<Rightarrow> nat \<Rightarrow> nat \<Rightarrow> nat list \<Rightarrow> bit_reader
   \<Rightarrow> bool \<times> nat list \<times> bit_reader" where
  "code_lengths_loop table num_symbols symbol 0 prev cl br = (True, cl, br)"
| "code_lengths_loop table num_symbols symbol (Suc max_symbol) prev cl br =
     (if symbol < num_symbols then
        (let p = table ! (VP8LPrefetchBits br AND LENGTHS_TABLE_MASK);
             br = VP8LSetBitPos br (br_bit_pos br + hc_bits p);
             code_len = hc_value p
         in if code_len < kCodeLengthLiterals then
              code_lengths_loop table num_symbols (Suc symbol) max_symbol
                (if code_len \<noteq> 0 then code_len else prev) (cl[symbol := code_len]) br
            else
              (let use_prev = (code_len = kCodeLengthRepeatCode);
                   slot = code_len - kCodeLengthLiterals;
                   extra_bits = kCodeLengthExtraBits ! slot;
                   repeat_offset = kCodeLengthRepeatOffsets ! slot;
                   (r, br) = VP8LReadBits br extra_bits;
                   repeat = r + repeat_offset
               in if symbol + repeat > num_symbols then (False, cl, br)
                  else code_lengths_loop table num_symbols (symbol + repeat) max_symbol prev
                         (fill_run cl symbol repeat (if use_prev then prev else 0)) br))
      else (True, cl, br))"

text \<open>The status a failing reader leaves: \<open>dec->status_ = VP8_STATUS_BITSTREAM_ERROR\<close>.\<close>

definition set_error :: "'o vp8l_decoder \<Rightarrow> 'o vp8l_decoder" where
  "set_error dec = dec\<lparr>dec_status := VP8_STATUS_BITSTREAM_ERROR\<rparr>"

definition ReadHuffmanCodeLengths ::
  "huffman_builder \<Rightarrow> 'o vp8l_decoder \<Rightarrow> nat list \<Rightarrow> nat \<Rightarrow> nat list
   \<Rightarrow> bool \<times> 'o vp8l_decoder \<times> nat list" where
  "ReadHuffmanCodeLengths build dec code_length_code_lengths num_symbols code_lengths =
     (let table = build LENGTHS_TABLE_BITS code_length_code_lengths in
      if table = [] then (False, set_error dec, code_lengths)
      else
        (let (use_length, br) = VP8LReadBits (dec_br dec) 1;
             (ok_max, max_symbol, br) =
               (if use_length \<noteq> 0 then
                  (let (l, br) = VP8LReadBits br 3;
                       length_nbits = 2 + 2 * l;
                       (m, br) = VP8LReadBits br length_nbits;
                       max_symbol = 2 + m
                   in (max_symbol \<le> num_symbols, max_symbol, br))
                else (True, num_symbols, br))
         in if \<not> ok_max then (False, set_error (dec\<lparr>dec_br := br\<rparr>), code_lengths)
            else
              (let (ok, cl, br) = code_lengths_loop table num_symbols 0 max_symbol
                                    DEFAULT_CODE_LENGTH code_lengths br;
                   dec = dec\<lparr>dec_br := br\<rparr>
               in (ok, if ok then dec else set_error dec, cl))))"

text \<open>\<open>code_length_code_lengths[kCodeLengthCodeOrder[i]] = VP8LReadBits(br, 3)\<close> for
  the first \<open>num_codes\<close> entries of the order.\<close>

fun read_code_length_code_lengths :: "nat list \<Rightarrow> nat list \<Rightarrow> bit_reader \<Rightarrow> nat list \<times> bit_reader" where
  "read_code_length_code_lengths [] cclc br = (cclc, br)"
| "read_code_length_code_lengths (k # ks) cclc br =
     (let (v, br) = VP8LReadBits br 3 in read_code_length_code_lengths ks (cclc[k := v]) br)"

text \<open>The common end of \<open>ReadHuffmanCode\<close>: \<open>ok = ok && !br->eos_\<close>, then the table is
  built from the first \<open>alphabet_size\<close> code lengths; size 0 is an error.\<close>

definition ReadHuffmanCode_finish ::
  "huffman_builder \<Rightarrow> nat \<Rightarrow> bool \<Rightarrow> 'o vp8l_decoder \<Rightarrow> nat list
   \<Rightarrow> huffman_code list \<times> 'o vp8l_decoder \<times> nat list" where
  "ReadHuffmanCode_finish build alphabet_size ok dec code_lengths =
     (let ok = (ok \<and> \<not> br_eos (dec_br dec));
          table = (if ok then build HUFFMAN_TABLE_BITS (take alphabet_size code_lengths) else [])
      in if table = [] then ([], set_error dec, code_lengths) else (table, dec, code_lengths))"

text \<open>
  \<open>ReadHuffmanCode\<close>: the table it writes at \<open>next\<close> (empty for the return value 0),
  the decoder and the scratch buffer \<open>code_lengths\<close>, whose first \<open>alphabet_size\<close>
  entries are cleared first (\<open>memset\<close>).
\<close>

definition ReadHuffmanCode ::
  "huffman_builder \<Rightarrow> nat \<Rightarrow> 'o vp8l_decoder \<Rightarrow> nat list
   \<Rightarrow> huffman_code list \<times> 'o vp8l_decoder \<times> nat list" where
  "ReadHuffmanCode build alphabet_size dec code_lengths =
     (let (simple_code, br) = VP8LReadBits (dec_br dec) 1;
          code_lengths = fill_run code_lengths 0 alphabet_size 0
      in if simple_code \<noteq> 0 then
           (let (n, br) = VP8LReadBits br 1;
                num_symbols = n + 1;
                (first_symbol_len_code, br) = VP8LReadBits br 1;
                (symbol, br) = VP8LReadBits br (if first_symbol_len_code = 0 then 1 else 8);
                code_lengths = code_lengths[symbol := 1];
                (code_lengths, br) =
                  (if num_symbols = 2 then
                     (let (symbol, br) = VP8LReadBits br 8 in (code_lengths[symbol := 1], br))
                   else (code_lengths, br))
            in ReadHuffmanCode_finish build alphabet_size True (dec\<lparr>dec_br := br\<rparr>) code_lengths)
         else
           (let (nc, br) = VP8LReadBits br 4;
                num_codes = nc + 4
            in if num_codes > NUM_CODE_LENGTH_CODES
               then ([], set_error (dec\<lparr>dec_br := br\<rparr>), code_lengths)
               else
                 (let (cclc, br) = read_code_length_code_lengths
                                     (take num_codes kCodeLengthCodeOrder)
                                     (replicate NUM_CODE_LENGTH_CODES 0) br;
                      (ok, dec, code_lengths) =
                        ReadHuffmanCodeLengths build (dec\<lparr>dec_br := br\<rparr>) cclc alphabet_size code_lengths
                  in ReadHuffmanCode_finish build alphabet_size ok dec code_lengths)))"

subsection \<open>The codes of an image (\<open>ReadHuffmanCodes\<close>)\<close>

definition HUFFMAN_CODES_PER_META_CODE :: nat where "HUFFMAN_CODES_PER_META_CODE = 5"

definition kAlphabetSize :: "nat list" where
  "kAlphabetSize = [NUM_LITERAL_CODES + NUM_LENGTH_CODES,
                    NUM_LITERAL_CODES, NUM_LITERAL_CODES, NUM_LITERAL_CODES, NUM_DISTANCE_CODES]"

definition kLiteralMap :: "nat list" where "kLiteralMap = [0, 1, 1, 1, 0]"

definition FIXED_TABLE_SIZE :: nat where "FIXED_TABLE_SIZE = 630 * 3 + 410"

definition kTableSize :: "nat list" where
  "kTableSize = map (\<lambda>n. FIXED_TABLE_SIZE + n)
     [654, 656, 658, 662, 670, 686, 718, 782, 912, 1168, 1680, 2704]"

text \<open>The alphabet of code \<open>j\<close>: green grows by the colour-cache size.\<close>

definition alphabet_size_of :: "nat \<Rightarrow> nat \<Rightarrow> nat" where
  "alphabet_size_of color_cache_bits j =
     kAlphabetSize ! j + (if j = 0 \<and> 0 < color_cache_bits then 2 ^ color_cache_bits else 0)"

definition max_alphabet_size :: "nat \<Rightarrow> nat" where
  "max_alphabet_size color_cache_bits =
     foldl (\<lambda>m j. max m (alphabet_size_of color_cache_bits j)) 0 [0..<HUFFMAN_CODES_PER_META_CODE]"

text \<open>
  The meta-Huffman image (lines 320--341): if present, it is decoded by the recursive
  call \<open>decode_stream\<close> (\<open>DecodeImageStream\<close>), each pixel's red and green bytes
  are its group, and the number of groups is one more than the largest.  The result
  is \<open>ok\<close>, the decoder, the group image and \<open>num_htree_groups\<close>.
\<close>

definition group_count :: "nat list \<Rightarrow> nat" where
  "group_count groups = foldl (\<lambda>n g. if n \<le> g then g + 1 else n) 1 groups"

definition ReadHuffmanCodes_meta ::
  "('o vp8l_decoder \<Rightarrow> nat \<Rightarrow> nat \<Rightarrow> u32 list option \<times> 'o vp8l_decoder)
   \<Rightarrow> 'o vp8l_decoder \<Rightarrow> nat \<Rightarrow> nat \<Rightarrow> bool \<Rightarrow> bool \<times> 'o vp8l_decoder \<times> nat list \<times> nat" where
  "ReadHuffmanCodes_meta decode_stream dec xsize ysize allow_recursion =
     (let (use_meta, br) = (if allow_recursion then VP8LReadBits (dec_br dec) 1 else (0, dec_br dec));
          dec = dec\<lparr>dec_br := br\<rparr>
      in if use_meta = 0 then (True, dec, [], 1)
         else
           (let (p, br) = VP8LReadBits (dec_br dec) 3;
                huffman_precision = p + 2;
                huffman_xsize = VP8LSubSampleSize xsize huffman_precision;
                huffman_ysize = VP8LSubSampleSize ysize huffman_precision;
                (img, dec) = decode_stream (dec\<lparr>dec_br := br\<rparr>) huffman_xsize huffman_ysize
            in case img of
                 None \<Rightarrow> (False, dec, [], 1)
               | Some img \<Rightarrow>
                   (let groups = map (\<lambda>v. unat (drop_bit 8 v AND 0xffff))
                                   (take (huffman_xsize * huffman_ysize) img);
                        hdr = dec_hdr dec
                    in (True, dec\<lparr>dec_hdr := hdr\<lparr>huffman_subsample_bits := huffman_precision\<rparr>\<rparr>,
                        groups, group_count groups))))"

text \<open>\<open>literal_arb = (alpha << 24) | (red << 16) | blue\<close>, from the first entry of each
  of the red, blue and alpha tables, and the group record of lines 384--390 (the C
  code leaves \<open>literal_arb\<close> unset when the literal is not trivial; it is then never read).\<close>

definition literal_arb_of :: "huffman_code list \<Rightarrow> nat list \<Rightarrow> u32" where
  "literal_arb_of tables hs =
     (let red = hc_value (tables ! (hs ! RED));
          blue = hc_value (tables ! (hs ! BLUE));
          alpha = hc_value (tables ! (hs ! ALPHA))
      in push_bit 24 (of_nat alpha) OR push_bit 16 (of_nat red) OR of_nat blue)"

definition make_htree_group :: "nat list \<Rightarrow> bool \<Rightarrow> huffman_code list \<Rightarrow> htree_group" where
  "make_htree_group hs is_trivial tables =
     \<lparr>htrees = hs, is_trivial_literal = is_trivial,
      literal_arb = (if is_trivial then literal_arb_of tables hs else 0)\<rparr>"

text \<open>
  The inner loop over the five codes of a group (lines 370--383): \<open>htrees[j] = next\<close> is
  the current length of the table array, the code's table is appended, and a code of
  size 0 is an error.  The trivial-literal flag looks at the first entry of each of the
  red, blue and alpha tables.
\<close>

fun read_htree_group ::
  "huffman_builder \<Rightarrow> nat \<Rightarrow> nat list \<Rightarrow> 'o vp8l_decoder \<Rightarrow> nat list \<Rightarrow> huffman_code list
   \<Rightarrow> nat list \<Rightarrow> bool \<Rightarrow> bool \<times> 'o vp8l_decoder \<times> nat list \<times> huffman_code list \<times> nat list \<times> bool" where
  "read_htree_group build ccb [] dec cl tables hs triv = (True, dec, cl, tables, hs, triv)"
| "read_htree_group build ccb (j # js) dec cl tables hs triv =
     (let hs = hs @ [length tables];
          (table, dec, cl) = ReadHuffmanCode build (alphabet_size_of ccb j) dec cl;
          triv = (if triv \<and> kLiteralMap ! j = 1 then hc_bits (table ! 0) = 0 else triv);
          tables = tables @ table
      in if table = [] then (False, dec, cl, tables, hs, triv)
         else read_htree_group build ccb js dec cl tables hs triv)"

text \<open>The outer loop over the groups (lines 366--391).\<close>

fun read_htree_groups ::
  "huffman_builder \<Rightarrow> nat \<Rightarrow> nat \<Rightarrow> 'o vp8l_decoder \<Rightarrow> nat list \<Rightarrow> huffman_code list
   \<Rightarrow> htree_group list \<Rightarrow> bool \<times> 'o vp8l_decoder \<times> huffman_code list \<times> htree_group list" where
  "read_htree_groups build ccb 0 dec cl tables groups = (True, dec, tables, groups)"
| "read_htree_groups build ccb (Suc n) dec cl tables groups =
     (let (ok, dec, cl, tables, hs, triv) =
            read_htree_group build ccb [0..<HUFFMAN_CODES_PER_META_CODE] dec cl tables [] True
      in if \<not> ok then (False, dec, tables, groups)
         else read_htree_groups build ccb n dec cl tables (groups @ [make_htree_group hs triv tables]))"

text \<open>
  \<open>ReadHuffmanCodes\<close>.  The three allocations either all succeed or the call fails
  with \<open>VP8_STATUS_OUT_OF_MEMORY\<close>: the parameter \<open>alloc_ok\<close> says which.  On success the
  header gets the group image, the number of groups, the groups and the tables.
\<close>

definition ReadHuffmanCodes ::
  "huffman_builder \<Rightarrow> ('o vp8l_decoder \<Rightarrow> nat \<Rightarrow> nat \<Rightarrow> u32 list option \<times> 'o vp8l_decoder)
   \<Rightarrow> bool \<Rightarrow> 'o vp8l_decoder \<Rightarrow> nat \<Rightarrow> nat \<Rightarrow> nat \<Rightarrow> bool \<Rightarrow> bool \<times> 'o vp8l_decoder" where
  "ReadHuffmanCodes build decode_stream alloc_ok dec xsize ysize color_cache_bits allow_recursion =
     (let (ok, dec, huffman_image, num_htree_groups) =
            ReadHuffmanCodes_meta decode_stream dec xsize ysize allow_recursion
      in if \<not> ok \<or> br_eos (dec_br dec) then (False, dec)
         else if \<not> alloc_ok then (False, dec\<lparr>dec_status := VP8_STATUS_OUT_OF_MEMORY\<rparr>)
         else
           (let code_lengths = replicate (max_alphabet_size color_cache_bits) 0;
                (ok, dec, tables, groups) =
                  read_htree_groups build color_cache_bits num_htree_groups dec code_lengths [] []
            in if \<not> ok then (False, dec)
               else
                 (let hdr = dec_hdr dec
                  in (True, dec\<lparr>dec_hdr := hdr\<lparr>huffman_image := huffman_image,
                                  num_htree_groups := num_htree_groups,
                                  htree_groups := groups, huffman_tables := tables\<rparr>\<rparr>))))"

subsection \<open>Predicates of the properties\<close>

text \<open>\<open>lengths_ok n cl cl'\<close>: the code-length buffer keeps its size, every entry is
  either unchanged or a code length (below 16), and nothing from index \<open>n\<close> on changes.\<close>


definition lengths_ok :: "nat \<Rightarrow> nat list \<Rightarrow> nat list \<Rightarrow> bool" where
  "lengths_ok n cl cl' \<longleftrightarrow> length cl' = length cl \<and>
     (\<forall>i<length cl. (cl' ! i < 16 \<or> cl' ! i = cl ! i) \<and> (n \<le> i \<longrightarrow> cl' ! i = cl ! i))"

text \<open>The first \<open>a\<close> entries of the buffer are code lengths.\<close>

definition lengths_bounded :: "nat \<Rightarrow> nat list \<Rightarrow> bool" where
  "lengths_bounded a cl \<longleftrightarrow> (\<forall>i<length cl. i < a \<longrightarrow> cl ! i < 16)"

text \<open>A root table of one symbol: every one of its \<open>2^8\<close> entries is the first,
  which consumes no bits.\<close>

definition trivial_root :: "huffman_code list \<Rightarrow> nat \<Rightarrow> bool" where
  "trivial_root tbl t \<longleftrightarrow> hc_bits (tbl ! t) = 0
     \<and> list_all (\<lambda>i. tbl ! (t + i) = tbl ! t) [0..<2 ^ HUFFMAN_TABLE_BITS]"

text \<open>Every group has its five trees, each inside the table array.\<close>

definition groups_ok :: "huffman_code list \<Rightarrow> htree_group list \<Rightarrow> bool" where
  "groups_ok tables groups \<longleftrightarrow> list_all (\<lambda>grp. length (htrees grp) = HUFFMAN_CODES_PER_META_CODE
     \<and> list_all (\<lambda>t. t < length tables) (htrees grp)) groups"

text \<open>What the decoding loop needs of a header: at least one group, one group record per
  group, every entry of the group image names a group, and every tree is in the tables.\<close>

definition metadata_groups_ok :: "vp8l_metadata \<Rightarrow> bool" where
  "metadata_groups_ok hdr \<longleftrightarrow> 0 < num_htree_groups hdr
     \<and> length (htree_groups hdr) = num_htree_groups hdr
     \<and> list_all (\<lambda>g. g < num_htree_groups hdr) (huffman_image hdr)
     \<and> groups_ok (huffman_tables hdr) (htree_groups hdr)"

text \<open>
  The fixture of the witnesses: a builder that returns a full table of one-bit entries
  for the symbol 0, a decoder on a given stream, a state whose tables are 256 copies of
  the zero-bit entry 9, and a stream of five simple one-symbol codes (\<open>1000\<close> each).
\<close>

definition hc_build_fx :: huffman_builder where
  "hc_build_fx root_bits cl = replicate (2 ^ root_bits) \<lparr>hc_bits = 1, hc_value = 0\<rparr>"

definition hc_hdr_fx :: vp8l_metadata where
  "hc_hdr_fx = \<lparr>color_cache_size = 0, color_cache = VP8LColorCacheInit 0,
     saved_color_cache = VP8LColorCacheInit 0, huffman_mask = -1, huffman_subsample_bits = 0,
     huffman_xsize = 1, huffman_image = [], num_htree_groups = 0, htree_groups = [],
     huffman_tables = []\<rparr>"

definition hc_dec_fx :: "u8 list \<Rightarrow> unit vp8l_decoder" where
  "hc_dec_fx stream = \<lparr>dec_status = VP8_STATUS_OK, dec_state = READ_DATA, dec_next_transform = 0,
     dec_transforms_seen = 0, dec_transforms = [], dec_br = VP8LInitBitReader stream,
     dec_saved_br = VP8LInitBitReader stream, dec_last_pixel = 0,
     dec_saved_last_pixel = 0, dec_incremental = False, dec_width = 1, dec_height = 1,
     dec_hdr = hc_hdr_fx, dec_io = ()\<rparr>"

definition hc_state_fx :: "unit dd_state" where
  "hc_state_fx = \<lparr>dd_dec = (hc_dec_fx (replicate 8 0))\<lparr>dec_hdr := hc_hdr_fx\<lparr>huffman_tables :=
       replicate 256 \<lparr>hc_bits = 0, hc_value = 9\<rparr>\<rparr>\<rparr>,
     dd_data = [0], dd_src = 0, dd_col = 0, dd_row = 0, dd_last_cached = 0, dd_htree_group = 0,
     dd_next_sync_row = 16777216\<rparr>"

definition hc_ctx_fx :: "unit dd_ctx" where
  "hc_ctx_fx = \<lparr>ctx_width = 1, ctx_height = 1, ctx_last_row = 1, ctx_process_func = None,
     ctx_data_addr = 0\<rparr>"

definition hc_codes_stream_fx :: "u8 list" where
  "hc_codes_stream_fx = [0x11, 0x11, 0x01, 0, 0, 0, 0, 0]"

subsection \<open>Lemmas\<close>

lemma trivial_root_iff:
  "trivial_root tbl t \<longleftrightarrow> hc_bits (tbl ! t) = 0 \<and> (\<forall>i<2 ^ HUFFMAN_TABLE_BITS. tbl ! (t + i) = tbl ! t)"
  by (auto simp: trivial_root_def list_all_iff)

lemma groups_ok_iff:
  "groups_ok tables groups \<longleftrightarrow> (\<forall>grp\<in>set groups. length (htrees grp) = HUFFMAN_CODES_PER_META_CODE
     \<and> (\<forall>t\<in>set (htrees grp). t < length tables))"
  by (simp add: groups_ok_def list_all_iff)

lemma length_fill_run [simp]: "length (fill_run cl i r v) = length cl"
  by (induction r arbitrary: cl i) auto

lemma fill_run_nth:
  "fill_run cl i r v ! k = (if i \<le> k \<and> k < i + r \<and> k < length cl then v else cl ! k)"
  by (induction r arbitrary: cl i) (auto simp: nth_list_update nth_list_update_neq list_update_beyond)

lemma lengths_ok_refl: "lengths_ok n cl cl"
  by (simp add: lengths_ok_def)

lemma lengths_ok_trans: "lengths_ok n cl cl' \<Longrightarrow> lengths_ok n cl' cl'' \<Longrightarrow> lengths_ok n cl cl''"
  unfolding lengths_ok_def by (metis)

lemma lengths_ok_update: "k0 < n \<Longrightarrow> v < 16 \<Longrightarrow> lengths_ok n cl (cl[k0 := v])"
  unfolding lengths_ok_def by (metis length_list_update nth_list_update nth_list_update_neq leD)

lemma lengths_ok_fill: "k0 + r \<le> n \<Longrightarrow> v < 16 \<Longrightarrow> lengths_ok n cl (fill_run cl k0 r v)"
  by (auto simp: lengths_ok_def fill_run_nth)

lemma code_lengths_loop_ok:
  assumes "\<forall>i<128. hc_value (table ! i) < 19" "prev < 16"
  shows "lengths_ok n cl (fst (snd (code_lengths_loop table n k0 ms prev cl br)))"
  using assms
proof (induction table n k0 ms prev cl br rule: code_lengths_loop.induct)
  case (1 table num_symbols symbol prev cl br)
  then show ?case by (simp add: lengths_ok_refl)
next
  case (2 table num_symbols symbol max_symbol prev cl br)
  define p where "p = table ! (VP8LPrefetchBits br AND LENGTHS_TABLE_MASK)"
  define br' where "br' = VP8LSetBitPos br (br_bit_pos br + hc_bits p)"
  have idx: "VP8LPrefetchBits br AND LENGTHS_TABLE_MASK < 128"
    unfolding LENGTHS_TABLE_MASK_def LENGTHS_TABLE_BITS_def and_mask_nat by simp
  then have v19: "hc_value p < 19" using "2.prems"(1) unfolding p_def by blast
  show ?case
  proof (cases "symbol < num_symbols")
    case False
    then show ?thesis by (simp add: lengths_ok_refl)
  next
    case sym: True
    show ?thesis
    proof (cases "hc_value p < kCodeLengthLiterals")
      case lit: True
      have prev': "(if hc_value p \<noteq> 0 then hc_value p else prev) < 16"
        using lit "2.prems"(2) by (simp add: kCodeLengthLiterals_def)
      have "lengths_ok num_symbols (cl[symbol := hc_value p])
              (fst (snd (code_lengths_loop table num_symbols (Suc symbol) max_symbol
                 (if hc_value p \<noteq> 0 then hc_value p else prev) (cl[symbol := hc_value p]) br')))"
        using "2.IH"(1) [OF sym p_def br'_def refl lit "2.prems"(1) prev'] unfolding br'_def p_def .
      moreover have "lengths_ok num_symbols cl (cl[symbol := hc_value p])"
        using sym lit by (simp add: lengths_ok_update kCodeLengthLiterals_def)
      moreover have "code_lengths_loop table num_symbols symbol (Suc max_symbol) prev cl br =
          code_lengths_loop table num_symbols (Suc symbol) max_symbol
            (if hc_value p \<noteq> 0 then hc_value p else prev) (cl[symbol := hc_value p]) br'"
        using sym lit by (simp add: Let_def p_def br'_def)
      ultimately show ?thesis using lengths_ok_trans by metis
    next
      case rep: False
      obtain r br'' where rb: "VP8LReadBits br' (kCodeLengthExtraBits ! (hc_value p - kCodeLengthLiterals)) = (r, br'')"
        by (cases "VP8LReadBits br' (kCodeLengthExtraBits ! (hc_value p - kCodeLengthLiterals))")
      define rr where "rr = r + kCodeLengthRepeatOffsets ! (hc_value p - kCodeLengthLiterals)"
      define v where "v = (if hc_value p = kCodeLengthRepeatCode then prev else 0)"
      have v16: "v < 16" using "2.prems"(2) by (simp add: v_def)
      show ?thesis
      proof (cases "symbol + rr > num_symbols")
        case True
        then show ?thesis using sym rep rb
          by (simp add: Let_def p_def br'_def rr_def lengths_ok_refl)
      next
        case fits: False
        have "lengths_ok num_symbols (fill_run cl symbol rr v)
                (fst (snd (code_lengths_loop table num_symbols (symbol + rr) max_symbol prev
                   (fill_run cl symbol rr v) br'')))"
          using "2.IH"(2) [OF sym p_def br'_def refl rep refl refl refl refl refl rb [symmetric] rr_def fits
                           "2.prems"(1) "2.prems"(2)]
          unfolding v_def .
        moreover have "lengths_ok num_symbols cl (fill_run cl symbol rr v)"
          using fits v16 by (simp add: lengths_ok_fill)
        moreover have "code_lengths_loop table num_symbols symbol (Suc max_symbol) prev cl br =
            code_lengths_loop table num_symbols (symbol + rr) max_symbol prev (fill_run cl symbol rr v) br''"
          using sym rep rb fits by (simp add: Let_def p_def br'_def rr_def v_def)
        ultimately show ?thesis using lengths_ok_trans by metis
      qed
    qed
  qed
qed

lemma code_lengths_loop_lengths:
  "code_lengths_loop table n k ms prev cl br = (ok, cl', br') \<Longrightarrow>
   \<forall>i<128. hc_value (table ! i) < 19 \<Longrightarrow> prev < 16 \<Longrightarrow> lengths_ok n cl cl'"
  using code_lengths_loop_ok [of table prev n cl k ms br] by simp

lemma ReadHuffmanCodeLengths_lengths:
  assumes "\<forall>i<128. hc_value (build LENGTHS_TABLE_BITS cclc ! i) < 19"
  shows "lengths_ok n cl (snd (snd (ReadHuffmanCodeLengths build dec cclc n cl)))"
  using assms
  by (auto simp: ReadHuffmanCodeLengths_def Let_def DEFAULT_CODE_LENGTH_def lengths_ok_refl
           split: prod.split intro: code_lengths_loop_lengths)

lemma lengths_bounded_fill: "lengths_bounded a (fill_run cl 0 a 0)"
  by (simp add: lengths_bounded_def fill_run_nth)

lemma lengths_bounded_update: "lengths_bounded a cl \<Longrightarrow> v < 16 \<Longrightarrow> lengths_bounded a (cl[k := v])"
  unfolding lengths_bounded_def by (metis length_list_update nth_list_update_eq nth_list_update_neq)

lemma lengths_bounded_ok: "lengths_bounded a cl \<Longrightarrow> lengths_ok a cl cl' \<Longrightarrow> lengths_bounded a cl'"
  unfolding lengths_bounded_def lengths_ok_def by fastforce

lemma lengths_bounded_take: "lengths_bounded a cl \<Longrightarrow> \<forall>x\<in>set (take a cl). x < 16"
  by (auto simp: lengths_bounded_def in_set_conv_nth)

lemma ReadHuffmanCode_finish_cl [simp]:
  "snd (snd (ReadHuffmanCode_finish build a ok dec cl)) = cl"
  by (simp add: ReadHuffmanCode_finish_def Let_def)

lemma ReadHuffmanCode_lengths:
  assumes "\<forall>cc. \<forall>i<128. hc_value (build LENGTHS_TABLE_BITS cc ! i) < 19"
  shows "lengths_bounded a (snd (snd (ReadHuffmanCode build a dec cl)))
       \<and> length (snd (snd (ReadHuffmanCode build a dec cl))) = length cl"
proof -
  have fill: "lengths_bounded a (fill_run cl 0 a 0)" by (rule lengths_bounded_fill)
  have lens: "lengths_bounded a c' \<and> length c' = length cl"
    if "ReadHuffmanCodeLengths build d cclc a (fill_run cl 0 a 0) = (ok, d', c')"
    for d d' :: "'a vp8l_decoder" and cclc ok c'
    using ReadHuffmanCodeLengths_lengths [of build cclc a "fill_run cl 0 a 0" d] assms fill that
    by (auto simp: lengths_ok_def intro: lengths_bounded_ok)
  show ?thesis
    using fill
    by (auto simp: ReadHuffmanCode_def Let_def lengths_bounded_update split: prod.split dest!: lens)
qed

lemma ReadSymbol_trivial:
  assumes "trivial_root tbl t"
  shows "ReadSymbol tbl t br = (hc_value (tbl ! t), VP8LSetBitPos br (br_bit_pos br))"
proof -
  have "tbl ! (t + (VP8LPrefetchBits br AND HUFFMAN_TABLE_MASK)) = tbl ! t"
    using assms root_index_bound [of "VP8LPrefetchBits br"] by (simp add: trivial_root_iff)
  then show ?thesis using assms
    by (simp add: ReadSymbol_def Let_def trivial_root_iff HUFFMAN_TABLE_BITS_def)
qed

lemma VP8LSetBitPos_same: "\<not> VP8LIsEndOfStream br \<Longrightarrow> VP8LSetBitPos br (br_bit_pos br) = br"
  by (simp add: VP8LSetBitPos_def VP8LIsEndOfStream_def)

lemma set_br_same [simp]: "set_br s (dec_br (dd_dec s)) = s"
  by (simp add: set_br_def)

lemma group_count_foldl:
  "(n::nat) \<le> foldl (\<lambda>n g. if n \<le> g then g + 1 else n) n gs
   \<and> (\<forall>g\<in>set gs. g < foldl (\<lambda>n g. if n \<le> g then g + 1 else n) n gs)"
proof (induction gs arbitrary: n)
  case Nil
  then show ?case by simp
next
  case (Cons g gs)
  define f where "f = (\<lambda>n g. if n \<le> g then g + 1 else (n::nat))"
  define m where "m = f n g"
  have m: "g < m" "n \<le> m" by (auto simp: m_def f_def)
  have "m \<le> foldl f m gs \<and> (\<forall>g\<in>set gs. g < foldl f m gs)"
    using Cons [of m] unfolding f_def .
  then show ?case using m unfolding f_def [symmetric] by (simp add: m_def [symmetric])
qed

lemma group_count_bound: "0 < group_count gs \<and> (\<forall>g\<in>set gs. g < group_count gs)"
  using group_count_foldl [of 1 gs] unfolding group_count_def by auto

lemma ReadHuffmanCodes_meta_groups:
  "ReadHuffmanCodes_meta ds dec xs ys ar = (ok, dec', img, n) \<Longrightarrow> 0 < n \<and> (\<forall>g\<in>set img. g < n)"
  by (auto simp: ReadHuffmanCodes_meta_def Let_def group_count_bound split: prod.splits if_splits option.splits)

lemma read_htree_group_inv:
  "read_htree_group build ccb js dec cl tables hs triv = (True, dec', cl', tables', hs', triv') \<Longrightarrow>
   \<forall>t\<in>set hs. t < length tables \<Longrightarrow>
   length hs' = length hs + length js \<and> (\<forall>t\<in>set hs'. t < length tables') \<and> length tables \<le> length tables'"
proof (induction js arbitrary: dec cl tables hs triv)
  case Nil
  then show ?case by simp
next
  case (Cons j js)
  obtain tb d c where r: "ReadHuffmanCode build (alphabet_size_of ccb j) dec cl = (tb, d, c)"
    by (cases "ReadHuffmanCode build (alphabet_size_of ccb j) dec cl")
  have ne: "tb \<noteq> []" using Cons.prems(1) r by (auto simp: Let_def)
  let ?triv = "if triv \<and> kLiteralMap ! j = 1 then hc_bits (tb ! 0) = 0 else triv"
  have rec: "read_htree_group build ccb js d c (tables @ tb) (hs @ [length tables]) ?triv
               = (True, dec', cl', tables', hs', triv')"
    using Cons.prems(1) r ne by (simp add: Let_def)
  have "\<forall>t\<in>set (hs @ [length tables]). t < length (tables @ tb)"
    using Cons.prems(2) ne by auto
  from Cons.IH [OF rec this] show ?case by simp
qed

lemma groups_ok_mono: "groups_ok tables groups \<Longrightarrow> length tables \<le> length tables' \<Longrightarrow> groups_ok tables' groups"
  unfolding groups_ok_iff by (meson order_less_le_trans)

lemma read_htree_groups_inv:
  "read_htree_groups build ccb n dec cl tables groups = (True, dec', tables', groups') \<Longrightarrow>
   groups_ok tables groups \<Longrightarrow> length groups' = length groups + n \<and> groups_ok tables' groups'"
proof (induction n arbitrary: dec cl tables groups)
  case 0
  then show ?case by simp
next
  case (Suc n)
  obtain ok d c tb hs tr where r:
    "read_htree_group build ccb [0..<HUFFMAN_CODES_PER_META_CODE] dec cl tables [] True = (ok, d, c, tb, hs, tr)"
    by (cases "read_htree_group build ccb [0..<HUFFMAN_CODES_PER_META_CODE] dec cl tables [] True") auto
  have ok: ok using Suc.prems(1) r by (auto simp: Let_def split: if_splits)
  have inv: "length hs = HUFFMAN_CODES_PER_META_CODE \<and> (\<forall>t\<in>set hs. t < length tb) \<and> length tables \<le> length tb"
    using read_htree_group_inv [of build ccb "[0..<HUFFMAN_CODES_PER_META_CODE]" dec cl tables "[]" True]
      r ok by simp
  have rec: "read_htree_groups build ccb n d c tb (groups @ [make_htree_group hs tr tb]) = (True, dec', tables', groups')"
    using Suc.prems(1) r ok by simp
  have "groups_ok tb groups" using groups_ok_mono [OF Suc.prems(2)] inv by blast
  then have "groups_ok tb (groups @ [make_htree_group hs tr tb])"
    using inv by (simp add: groups_ok_iff make_htree_group_def)
  from Suc.IH [OF rec this] show ?case by simp
qed

lemma ReadHuffmanCodeLengths_status:
  "ReadHuffmanCodeLengths build dec cclc n cl = (ok, dec', cl') \<Longrightarrow>
   dec_status dec' = (if ok then dec_status dec else VP8_STATUS_BITSTREAM_ERROR)"
  by (auto simp: ReadHuffmanCodeLengths_def Let_def set_error_def split: prod.splits if_splits)

lemma ReadHuffmanCode_finish_status:
  "ReadHuffmanCode_finish build a ok dec cl = (tb, dec', cl') \<Longrightarrow>
   (tb = [] \<longrightarrow> dec_status dec' = VP8_STATUS_BITSTREAM_ERROR) \<and> (tb \<noteq> [] \<longrightarrow> ok \<and> dec' = dec)"
  by (auto simp: ReadHuffmanCode_finish_def Let_def set_error_def split: if_splits)

subsection \<open>Properties\<close>

text \<open>
  C17. Every code length \<open>ReadHuffmanCode\<close> hands to the table builder is below 16, the
  bound \<open>VP8LBuildHuffmanTable\<close> assumes, whatever the stream: the literal code lengths
  0--15 are stored as read, the repeat codes 16--18 copy the previous non-zero length
  (initially 8) or 0, and the scratch buffer keeps its size.  The only assumption is on
  the builder: the code-length table it builds (\<open>LENGTHS_TABLE_BITS = 7\<close> root bits)
  holds symbols of the 19-letter code-length alphabet.
\<close>

theorem ReadHuffmanCode_lengths_bound:
  assumes "\<forall>cc. \<forall>i<128. hc_value (build LENGTHS_TABLE_BITS cc ! i) < 19"
    and "ReadHuffmanCode build a dec cl = (table, dec', cl')"
  shows "length cl' = length cl \<and> (\<forall>x\<in>set (take a cl'). x < 16)"
proof -
  have "lengths_bounded a cl' \<and> length cl' = length cl"
    using ReadHuffmanCode_lengths [of build a dec cl] assms by simp
  then show ?thesis using lengths_bounded_take by blast
qed

theorem ReadHuffmanCode_lengths_bound_witness:
  "length (snd (snd (ReadHuffmanCode hc_build_fx 3 (hc_dec_fx (replicate 8 0)) [5, 5, 5, 5, 5]))) = 5
   \<and> list_all (\<lambda>x. x < 16)
       (take 3 (snd (snd (ReadHuffmanCode hc_build_fx 3 (hc_dec_fx (replicate 8 0)) [5, 5, 5, 5, 5]))))"
proof -
  have h1: "\<forall>cc. \<forall>i<128. hc_value (hc_build_fx LENGTHS_TABLE_BITS cc ! i) < 19"
    by (simp add: hc_build_fx_def LENGTHS_TABLE_BITS_def)
  have h2: "ReadHuffmanCode hc_build_fx 3 (hc_dec_fx (replicate 8 0)) [5, 5, 5, 5, 5]
       = (fst (ReadHuffmanCode hc_build_fx 3 (hc_dec_fx (replicate 8 0)) [5, 5, 5, 5, 5]),
          fst (snd (ReadHuffmanCode hc_build_fx 3 (hc_dec_fx (replicate 8 0)) [5, 5, 5, 5, 5])),
          snd (snd (ReadHuffmanCode hc_build_fx 3 (hc_dec_fx (replicate 8 0)) [5, 5, 5, 5, 5])))"
    by simp
  show ?thesis
    using ReadHuffmanCode_lengths_bound [OF h1 h2] by (simp add: list_all_iff)
qed

text \<open>
  C18. The trivial-literal fast path is exact: for a group whose red, blue and alpha
  trees have one symbol each, decoding a literal with the precomputed
  \<open>literal_arb\<close> of \<open>ReadHuffmanCodes\<close> (\<open>is_trivial_literal\<close>) gives the same pixel,
  the same reader and the same next state as reading the three symbols.
\<close>

theorem decode_literal_trivial_fast_path:
  fixes s :: "'o dd_state"
  defines "tbl \<equiv> huffman_tables (dec_hdr (dd_dec s))"
  assumes "trivial_root tbl (hs ! RED)" "trivial_root tbl (hs ! BLUE)" "trivial_root tbl (hs ! ALPHA)"
    and "\<not> VP8LIsEndOfStream (dec_br (dd_dec s))"
  shows "decode_literal c (make_htree_group hs True tbl) code s
       = decode_literal c (make_htree_group hs False tbl) code s"
proof -
  have eos: "\<not> br_eos (dec_br (dd_dec s))" using assms(5) by (simp add: VP8LIsEndOfStream_def)
  have px: "(a OR r OR b) OR k = a OR r OR k OR (b :: u32)" for a r b k
    by (simp add: ac_simps)
  show ?thesis
    using assms(2-5) eos
    by (simp add: decode_literal_def make_htree_group_def literal_arb_of_def Let_def
          ReadSymbol_trivial VP8LSetBitPos_same px flip: tbl_def)
qed

theorem decode_literal_trivial_fast_path_witness:
  "trivial_root (huffman_tables (dec_hdr (dd_dec hc_state_fx))) ([0, 0, 0, 0, 0] ! RED)
   \<and> trivial_root (huffman_tables (dec_hdr (dd_dec hc_state_fx))) ([0, 0, 0, 0, 0] ! BLUE)
   \<and> trivial_root (huffman_tables (dec_hdr (dd_dec hc_state_fx))) ([0, 0, 0, 0, 0] ! ALPHA)
   \<and> \<not> VP8LIsEndOfStream (dec_br (dd_dec hc_state_fx))
   \<and> decode_literal hc_ctx_fx (make_htree_group [0, 0, 0, 0, 0] True
         (huffman_tables (dec_hdr (dd_dec hc_state_fx)))) 7 hc_state_fx
     = decode_literal hc_ctx_fx (make_htree_group [0, 0, 0, 0, 0] False
         (huffman_tables (dec_hdr (dd_dec hc_state_fx)))) 7 hc_state_fx"
proof -
  have t: "trivial_root (huffman_tables (dec_hdr (dd_dec hc_state_fx))) 0"
    by (simp add: trivial_root_iff hc_state_fx_def HUFFMAN_TABLE_BITS_def)
  have e: "\<not> VP8LIsEndOfStream (dec_br (dd_dec hc_state_fx))"
    by (simp add: hc_state_fx_def hc_dec_fx_def VP8LInitBitReader_def VP8LIsEndOfStream_def)
  show ?thesis
    using decode_literal_trivial_fast_path [of hc_state_fx "[0, 0, 0, 0, 0]" hc_ctx_fx 7] t e
    by (simp add: RED_def BLUE_def ALPHA_def)
qed

text \<open>
  C19. A header \<open>ReadHuffmanCodes\<close> accepts is safe for the decoding loop: at least one
  group, a group record for each, every tile of the group image names an existing
  group, and each group's five trees lie inside the table array.
\<close>

theorem ReadHuffmanCodes_groups_ok:
  assumes "ReadHuffmanCodes build ds alloc_ok dec xsize ysize ccb allow_recursion = (True, dec')"
  shows "metadata_groups_ok (dec_hdr dec')"
proof -
  obtain ok d img n where m: "ReadHuffmanCodes_meta ds dec xsize ysize allow_recursion = (ok, d, img, n)"
    by (cases "ReadHuffmanCodes_meta ds dec xsize ysize allow_recursion") auto
  obtain ok2 d2 tb gs where g:
    "read_htree_groups build ccb n d (replicate (max_alphabet_size ccb) 0) [] [] = (ok2, d2, tb, gs)"
    by (cases "read_htree_groups build ccb n d (replicate (max_alphabet_size ccb) 0) [] []") auto
  have ok: "ok" "ok2" and d': "dec' = d2\<lparr>dec_hdr := dec_hdr d2\<lparr>huffman_image := img,
      num_htree_groups := n, htree_groups := gs, huffman_tables := tb\<rparr>\<rparr>"
    using assms m g by (auto simp: ReadHuffmanCodes_def Let_def split: if_splits)
  have "length gs = n \<and> groups_ok tb gs"
    using read_htree_groups_inv [of build ccb n d _ "[]" "[]" d2 tb gs] g ok by (simp add: groups_ok_iff)
  then show ?thesis
    using ReadHuffmanCodes_meta_groups [OF m] d' by (simp add: metadata_groups_ok_def list_all_iff)
qed

theorem ReadHuffmanCodes_groups_ok_witness:
  "ReadHuffmanCodes hc_build_fx (\<lambda>d x y. (None, d)) True (hc_dec_fx hc_codes_stream_fx) 1 1 0 False
     = (True, snd (ReadHuffmanCodes hc_build_fx (\<lambda>d x y. (None, d)) True (hc_dec_fx hc_codes_stream_fx) 1 1 0 False))
   \<and> metadata_groups_ok (dec_hdr (snd (ReadHuffmanCodes hc_build_fx (\<lambda>d x y. (None, d)) True
       (hc_dec_fx hc_codes_stream_fx) 1 1 0 False)))"
proof -
  have "fst (ReadHuffmanCodes hc_build_fx (\<lambda>d x y. (None, d)) True (hc_dec_fx hc_codes_stream_fx) 1 1 0 False)
      = True"
    by code_simp
  then have h: "ReadHuffmanCodes hc_build_fx (\<lambda>d x y. (None, d)) True (hc_dec_fx hc_codes_stream_fx) 1 1 0 False
     = (True, snd (ReadHuffmanCodes hc_build_fx (\<lambda>d x y. (None, d)) True (hc_dec_fx hc_codes_stream_fx) 1 1 0 False))"
    by (rule prod_eq_fst)
  show ?thesis by (rule conjI [OF h ReadHuffmanCodes_groups_ok [OF h]])
qed

text \<open>
  C20. \<open>ReadHuffmanCode\<close> fails exactly by returning size 0, and then the decoder's
  status is \<open>VP8_STATUS_BITSTREAM_ERROR\<close>; when it returns a table, the status is the
  one it was called with.
\<close>

theorem ReadHuffmanCode_error:
  assumes "ReadHuffmanCode build a dec cl = (table, dec', cl')"
  shows "(table = [] \<longrightarrow> dec_status dec' = VP8_STATUS_BITSTREAM_ERROR)
       \<and> (table \<noteq> [] \<longrightarrow> dec_status dec' = dec_status dec)"
  using assms
  by (auto simp: ReadHuffmanCode_def Let_def set_error_def split: prod.splits if_splits
           dest!: ReadHuffmanCode_finish_status ReadHuffmanCodeLengths_status)

theorem ReadHuffmanCode_error_witness:
  "ReadHuffmanCode hc_build_fx 3 (hc_dec_fx []) [5, 5, 5]
     = ([], fst (snd (ReadHuffmanCode hc_build_fx 3 (hc_dec_fx []) [5, 5, 5])),
         snd (snd (ReadHuffmanCode hc_build_fx 3 (hc_dec_fx []) [5, 5, 5])))
   \<and> dec_status (fst (snd (ReadHuffmanCode hc_build_fx 3 (hc_dec_fx []) [5, 5, 5])))
     = VP8_STATUS_BITSTREAM_ERROR"
proof -
  have "fst (ReadHuffmanCode hc_build_fx 3 (hc_dec_fx []) [5, 5, 5]) = []"
    by code_simp
  then have h: "ReadHuffmanCode hc_build_fx 3 (hc_dec_fx []) [5, 5, 5]
     = ([], fst (snd (ReadHuffmanCode hc_build_fx 3 (hc_dec_fx []) [5, 5, 5])),
         snd (snd (ReadHuffmanCode hc_build_fx 3 (hc_dec_fx []) [5, 5, 5])))"
    by (rule prod_eq_fst3)
  show ?thesis using ReadHuffmanCode_error [OF h] by (intro conjI h) simp
qed

end
