(* ===== verification/Transforms.thy ===== *)
theory Transforms
  imports HuffmanCodes DecodeInv CopyBlock8
begin

text \<open>
  The image streams below the top level and the transforms that read them (vp8l.cpp,
  lines 1118--1205 and 1272--1360): \<open>DecodeImageStream\<close> after its transform loop
  (the colour-cache descriptor, \<open>ReadHuffmanCodes\<close>, the cache set-up, \<open>UpdateDecoder\<close>
  and, below the top level, \<open>DecodeImageData\<close> on a fresh buffer), \<open>ReadTransform\<close>
  with the sub-stream of its metadata image, \<open>ExpandColorMap\<close> on the bytes of the
  palette, and \<open>InitMetadata\<close>/\<open>ClearMetadata\<close>.  The allocations of the code
  (\<open>tvg::malloc\<close>/\<open>calloc\<close>) are an oracle \<open>alloc\<close> saying which allocation site
  succeeds.  A sub-stream never recurses (\<open>is_level0 = 0\<close>), so these definitions are
  not recursive; the top-level stream and its transform loop are in \<open>ImageStream\<close>.
\<close>

definition NUM_TRANSFORMS :: nat where "NUM_TRANSFORMS = 4"
definition MAX_CACHE_BITS :: nat where "MAX_CACHE_BITS = 11"

text \<open>The allocation sites of the decoder: the stream decoder's (Huffman tables, colour
  cache, sub-image pixels, palette), and those of the API (\<open>VP8LNew\<close>, the internal
  buffers, the rescaler, the snapshot cache of \<open>VP8LDecodeImage\<close>).\<close>

datatype alloc_site = ALLOC_HUFFMAN | ALLOC_COLOR_CACHE | ALLOC_PIXELS | ALLOC_COLOR_MAP
  | ALLOC_DECODER | ALLOC_INTERNAL_BUFFERS | ALLOC_RESCALER | ALLOC_SAVED_CACHE

text \<open>\<open>(VP8LImageTransformType)VP8LReadBits(br, 2)\<close>.\<close>

definition transform_type_of :: "nat \<Rightarrow> VP8LImageTransformType" where
  "transform_type_of t =
     (if t = 0 then PREDICTOR_TRANSFORM else if t = 1 then CROSS_COLOR_TRANSFORM
      else if t = 2 then SUBTRACT_GREEN else COLOR_INDEXING_TRANSFORM)"

text \<open>\<open>InitMetadata\<close> zeroes the header; \<open>ClearMetadata\<close> frees its tables and caches and
  zeroes it again.\<close>

definition InitMetadata :: vp8l_metadata where
  "InitMetadata = \<lparr>color_cache_size = 0,
     color_cache = \<lparr>cc_colors = [], cc_hash_shift = 0, cc_hash_bits = 0\<rparr>,
     saved_color_cache = \<lparr>cc_colors = [], cc_hash_shift = 0, cc_hash_bits = 0\<rparr>,
     huffman_mask = 0, huffman_subsample_bits = 0, huffman_xsize = 0, huffman_image = [],
     num_htree_groups = 0, htree_groups = [], huffman_tables = []\<rparr>"

definition ClearMetadata :: "vp8l_metadata \<Rightarrow> vp8l_metadata" where
  "ClearMetadata hdr = InitMetadata"

definition ClearTransform :: "vp8l_transform \<Rightarrow> vp8l_transform" where
  "ClearTransform transform = transform\<lparr>tr_data := []\<rparr>"

text \<open>The part of the decoder the transform loop owns.\<close>

definition tr_view :: "'o vp8l_decoder \<Rightarrow> VP8LDecodeState \<times> nat \<times> nat \<times> vp8l_transform list" where
  "tr_view dec = (dec_state dec, dec_next_transform dec, dec_transforms_seen dec, dec_transforms dec)"

subsection \<open>The palette (\<open>ExpandColorMap\<close>)\<close>

text \<open>The bytes of a pixel array in memory (\<open>(uint8_t* )transform->data_\<close>), little
  endian, and back.\<close>

definition argb_bytes :: "u32 list \<Rightarrow> u8 list" where
  "argb_bytes ws = concat (map (\<lambda>w. map (pbyte w) [0..<4]) ws)"

definition bytes_argb :: "u8 list \<Rightarrow> u32 list" where
  "bytes_argb bs = map (\<lambda>i. of_nat (le_value (take 4 (drop (4 * i) bs)))) [0..<length bs div 4]"

text \<open>
  The two loops of \<open>ExpandColorMap\<close> on the bytes of the new map: the first pixel is
  copied, every later byte of the \<open>num_colors\<close> pixels is the byte four places back plus
  the input byte (\<open>(data[i] + new_data[i - 4]) & 0xff\<close>, the wrap-around of a byte),
  and the rest up to \<open>4 * final_num_colors\<close> is black.  The new map is built byte by
  byte in the order the loops write it.
\<close>

definition expand_color_bytes :: "u8 list \<Rightarrow> nat \<Rightarrow> nat \<Rightarrow> u8 list" where
  "expand_color_bytes data num_colors final_num_colors =
     (let new_data = foldl (\<lambda>new i. new @ [data ! i + new ! (i - 4)]) (take 4 data) [4..<4 * num_colors]
      in new_data @ replicate (4 * final_num_colors - max 4 (4 * num_colors)) 0)"

definition ExpandColorMap :: "bool \<Rightarrow> nat \<Rightarrow> vp8l_transform \<Rightarrow> bool \<times> vp8l_transform" where
  "ExpandColorMap alloc_ok num_colors transform =
     (let final_num_colors = 2 ^ drop_bit (tr_bits transform) 8
      in if \<not> alloc_ok then (False, transform)
         else (True, transform\<lparr>tr_data := bytes_argb (expand_color_bytes
                 (argb_bytes (tr_data transform)) num_colors final_num_colors)\<rparr>))"

text \<open>The pixels packed per byte of a colour-indexed image: \<open>bits\<close> of \<open>ReadTransform\<close>.\<close>

definition color_index_bits :: "nat \<Rightarrow> nat" where
  "color_index_bits num_colors =
     (if num_colors > 16 then 0 else if num_colors > 4 then 1 else if num_colors > 2 then 2 else 3)"

subsection \<open>Image streams below the top level\<close>

text \<open>The label \<open>End\<close> of \<open>DecodeImageStream\<close> on failure: the header is cleared.\<close>

definition stream_fail :: "'o vp8l_decoder \<Rightarrow> 'o vp8l_decoder" where
  "stream_fail dec = dec\<lparr>dec_hdr := ClearMetadata (dec_hdr dec)\<rparr>"

text \<open>The colour-cache descriptor (lines 1291--1299): \<open>ok\<close>, the cache bits, the decoder.\<close>

definition read_color_cache_bits :: "'o vp8l_decoder \<Rightarrow> bool \<times> nat \<times> 'o vp8l_decoder" where
  "read_color_cache_bits dec =
     (let (use_cache, br) = VP8LReadBits (dec_br dec) 1
      in if use_cache \<noteq> 0 then
           (let (b, br) = VP8LReadBits br 4
            in (1 \<le> b \<and> b \<le> MAX_CACHE_BITS, b, dec\<lparr>dec_br := br\<rparr>))
         else (True, 0, dec\<lparr>dec_br := br\<rparr>))"

text \<open>
  \<open>DecodeImageStream\<close> from the colour-cache descriptor on, given the \<open>ok\<close> of the
  transform loop and the transformed size (lines 1291--1360).  The result is \<open>ok\<close>, the
  decoder and the decoded pixels (\<open>*decoded_data\<close>, empty when none is returned).
  The pixel buffer is a fresh allocation whose content the decoder overwrites; it
  starts as zeros here.
\<close>

definition DecodeImageStream_tail ::
  "huffman_builder \<Rightarrow> (alloc_site \<Rightarrow> bool)
   \<Rightarrow> ('o vp8l_decoder \<Rightarrow> nat \<Rightarrow> nat \<Rightarrow> u32 list option \<times> 'o vp8l_decoder)
   \<Rightarrow> bool \<Rightarrow> bool \<Rightarrow> nat \<Rightarrow> nat \<Rightarrow> 'o vp8l_decoder \<Rightarrow> bool \<times> 'o vp8l_decoder \<times> u32 list" where
  "DecodeImageStream_tail build alloc decode_stream is_level0 ok xsize ysize dec =
     (let (ok, color_cache_bits, dec) = (if ok then read_color_cache_bits dec else (False, 0, dec))
      in if \<not> ok then (False, stream_fail (set_error dec), [])
         else
           (let (ok, dec) = ReadHuffmanCodes build decode_stream (alloc ALLOC_HUFFMAN) dec
                              xsize ysize color_cache_bits is_level0
            in if \<not> ok then (False, stream_fail (set_error dec), [])
               else if 0 < color_cache_bits \<and> \<not> alloc ALLOC_COLOR_CACHE
               then (False, stream_fail (dec\<lparr>dec_status := VP8_STATUS_OUT_OF_MEMORY\<rparr>), [])
               else
                 (let hdr = dec_hdr dec;
                      hdr = (if 0 < color_cache_bits
                             then hdr\<lparr>color_cache_size := 2 ^ color_cache_bits,
                                      color_cache := VP8LColorCacheInit color_cache_bits\<rparr>
                             else hdr\<lparr>color_cache_size := 0\<rparr>);
                      dec = UpdateDecoder (dec\<lparr>dec_hdr := hdr\<rparr>) xsize ysize
                  in if is_level0 then (True, dec\<lparr>dec_state := READ_HDR, dec_last_pixel := 0\<rparr>, [])
                     else if \<not> alloc ALLOC_PIXELS
                     then (False, stream_fail (dec\<lparr>dec_status := VP8_STATUS_OUT_OF_MEMORY\<rparr>), [])
                     else
                       (let (ok, dec, data) = DecodeImageData dec (replicate (xsize * ysize) 0)
                                                xsize ysize ysize None 0
                        in if ok \<and> \<not> br_eos (dec_br dec)
                           then (True, stream_fail (dec\<lparr>dec_last_pixel := 0\<rparr>), data)
                           else (False, stream_fail dec, [])))))"

text \<open>\<open>DecodeImageStream(xsize, ysize, 0, dec, &data)\<close>: no transforms, and
  \<open>ReadHuffmanCodes\<close> is called with \<open>allow_recursion = 0\<close>, so it never decodes a
  further stream (its \<open>decode_stream\<close> argument is never called).\<close>

definition DecodeImageStream_sub ::
  "huffman_builder \<Rightarrow> (alloc_site \<Rightarrow> bool) \<Rightarrow> nat \<Rightarrow> nat \<Rightarrow> 'o vp8l_decoder
   \<Rightarrow> bool \<times> 'o vp8l_decoder \<times> u32 list" where
  "DecodeImageStream_sub build alloc xsize ysize dec =
     DecodeImageStream_tail build alloc (\<lambda>d x y. (None, d)) False True xsize ysize dec"

text \<open>The sub-stream as the meta-Huffman image reader of \<open>ReadHuffmanCodes\<close>.\<close>

definition sub_stream_reader ::
  "huffman_builder \<Rightarrow> (alloc_site \<Rightarrow> bool) \<Rightarrow> 'o vp8l_decoder \<Rightarrow> nat \<Rightarrow> nat
   \<Rightarrow> u32 list option \<times> 'o vp8l_decoder" where
  "sub_stream_reader build alloc dec xsize ysize =
     (let (ok, dec, data) = DecodeImageStream_sub build alloc xsize ysize dec
      in (if ok then Some data else None, dec))"

subsection \<open>\<open>ReadTransform\<close>\<close>

definition set_transform :: "'o vp8l_decoder \<Rightarrow> nat \<Rightarrow> vp8l_transform \<Rightarrow> 'o vp8l_decoder" where
  "set_transform dec n transform = dec\<lparr>dec_transforms := (dec_transforms dec)[n := transform]\<rparr>"

text \<open>
  \<open>ReadTransform\<close>: the result is \<open>ok\<close>, the new \<open>*xsize\<close> and the decoder.  A type
  already seen is refused before anything is written; otherwise the type's bit is set,
  the transform \<open>transforms_[next_transform_]\<close> is filled and \<open>next_transform_\<close>
  advances, then the type's own data is read.
\<close>

definition ReadTransform ::
  "huffman_builder \<Rightarrow> (alloc_site \<Rightarrow> bool) \<Rightarrow> nat \<Rightarrow> nat \<Rightarrow> 'o vp8l_decoder
   \<Rightarrow> bool \<times> nat \<times> 'o vp8l_decoder" where
  "ReadTransform build alloc xsize ysize dec =
     (let (t, br) = VP8LReadBits (dec_br dec) 2;
          dec = dec\<lparr>dec_br := br\<rparr>;
          type = transform_type_of t
      in if bit (dec_transforms_seen dec) t then (False, xsize, dec)
         else
           (let n = dec_next_transform dec;
                transform = (dec_transforms dec ! n)\<lparr>tr_type := type, tr_xsize := xsize,
                               tr_ysize := ysize, tr_data := []\<rparr>;
                dec = set_transform (dec\<lparr>dec_transforms_seen := dec_transforms_seen dec OR push_bit t 1,
                                         dec_next_transform := Suc n\<rparr>) n transform
            in case type of
                 SUBTRACT_GREEN \<Rightarrow> (True, xsize, dec)
               | COLOR_INDEXING_TRANSFORM \<Rightarrow>
                   (let (c, br) = VP8LReadBits (dec_br dec) 8;
                        num_colors = c + 1;
                        bits = color_index_bits num_colors;
                        transform = transform\<lparr>tr_bits := bits\<rparr>;
                        (ok, dec, data) = DecodeImageStream_sub build alloc num_colors 1
                                            (set_transform (dec\<lparr>dec_br := br\<rparr>) n transform);
                        transform = transform\<lparr>tr_data := (if ok then data else [])\<rparr>;
                        (ok, transform) = (if ok then ExpandColorMap (alloc ALLOC_COLOR_MAP) num_colors transform
                                           else (False, transform))
                    in (ok, VP8LSubSampleSize xsize bits, set_transform dec n transform))
               | _ \<Rightarrow>
                   (let (b, br) = VP8LReadBits (dec_br dec) 3;
                        bits = b + 2;
                        transform = transform\<lparr>tr_bits := bits\<rparr>;
                        (ok, dec, data) = DecodeImageStream_sub build alloc
                                            (VP8LSubSampleSize xsize bits) (VP8LSubSampleSize ysize bits)
                                            (set_transform (dec\<lparr>dec_br := br\<rparr>) n transform)
                    in (ok, xsize, set_transform dec n (transform\<lparr>tr_data := (if ok then data else [])\<rparr>)))))"

text \<open>The prefix sum of byte lane \<open>i mod 4\<close> up to the pixel of byte \<open>i\<close>.\<close>

definition color_prefix :: "u8 list \<Rightarrow> nat \<Rightarrow> u8" where
  "color_prefix data i = (\<Sum>m\<le>i div 4. data ! (4 * m + i mod 4))"

text \<open>A two-colour palette with the colours 1 and 1 (\<open>bits = 3\<close>: two colours).\<close>

definition palette_fx :: vp8l_transform where
  "palette_fx = \<lparr>tr_type = COLOR_INDEXING_TRANSFORM, tr_bits = 3, tr_xsize = 2, tr_ysize = 1,
     tr_data = [1, 1]\<rparr>"

text \<open>The transform types not yet seen: \<open>transforms_seen_\<close> has a bit per type.\<close>

definition unseen_types :: "'o vp8l_decoder \<Rightarrow> nat" where
  "unseen_types dec = length (filter (\<lambda>t. \<not> bit (dec_transforms_seen dec) t) [0..<NUM_TRANSFORMS])"

subsection \<open>Frame lemmas: what the sub-streams leave alone\<close>

named_theorems tr_frame \<open>functions that leave the transform part of the decoder alone\<close>

lemma tr_view_upd [simp]:
  "tr_view (dec\<lparr>dec_status := x\<rparr>) = tr_view dec" "tr_view (dec\<lparr>dec_br := b\<rparr>) = tr_view dec"
  "tr_view (dec\<lparr>dec_hdr := h\<rparr>) = tr_view dec" "tr_view (dec\<lparr>dec_io := i\<rparr>) = tr_view dec"
  "tr_view (dec\<lparr>dec_last_pixel := p\<rparr>) = tr_view dec"
  "tr_view (dec\<lparr>dec_width := w, dec_height := ht, dec_hdr := h\<rparr>) = tr_view dec"
  by (simp_all add: tr_view_def)

lemma tr_view_pieces [tr_frame]:
  "tr_view (dd_dec (call_process c s)) = tr_view (dd_dec s)"
  "tr_view (dd_dec (flush_cache s)) = tr_view (dd_dec s)"
  "tr_view (dd_dec (set_br s b)) = tr_view (dd_dec s)"
  "tr_view (dd_dec (advance_by_one c s)) = tr_view (dd_dec s)"
  "tr_view (dd_dec (DecodeImageData_sync s)) = tr_view (dd_dec s)"
  "tr_view (dd_dec (DecodeImageData_tile s)) = tr_view (dd_dec s)"
  "tr_view (SaveState d p) = tr_view d" "tr_view (RestoreState d) = tr_view d"
  by (simp_all add: call_process_def flush_cache_def set_br_def advance_by_one_def cache_on_def
      DecodeImageData_sync_def DecodeImageData_tile_def SaveState_def RestoreState_def tr_view_def
      Let_def split: option.split)

lemma tr_view_advance_rows [tr_frame]: "tr_view (dd_dec (advance_rows c s)) = tr_view (dd_dec s)"
  by (induction c s rule: advance_rows.induct, subst advance_rows.simps, simp add: tr_view_pieces)

lemma tr_view_branches [tr_frame]:
  "tr_view (dd_dec (step_state (decode_literal c g code s))) = tr_view (dd_dec s)"
  "tr_view (dd_dec (step_state (decode_backref c g code s))) = tr_view (dd_dec s)"
  "tr_view (dd_dec (decode_cache_ref c code s)) = tr_view (dd_dec s)"
  by (simp_all add: decode_literal_def decode_backref_def decode_cache_ref_def set_pixel_def
      Let_def tr_frame split: prod.split)

lemma tr_view_body [tr_frame]:
  "tr_view (dd_dec (step_state (DecodeImageData_body c s))) = tr_view (dd_dec s)"
  by (simp add: DecodeImageData_body_def Let_def tr_frame split: prod.split)

lemma tr_view_loop [tr_frame]:
  "tr_view (dd_dec (snd (DecodeImageData_loop c s))) = tr_view (dd_dec s)"
proof (induction c s rule: DecodeImageData_loop.induct)
  case (1 c s)
  show ?case
  proof (cases "dd_src s < ctx_width c * ctx_last_row c")
    case True
    then show ?thesis
      using "1" [OF True] tr_view_body [of c s]
      by (cases "DecodeImageData_body c s") (simp_all add: DecodeImageData_loop_step)
  qed (simp add: DecodeImageData_loop_step)
qed

lemma tr_view_loop_eq:
  "DecodeImageData_loop c s = (ok, s') \<Longrightarrow> tr_view (dd_dec s') = tr_view (dd_dec s)"
  using tr_view_loop [of c s] by simp

lemma tr_view_init [simp]: "tr_view (dd_dec (DecodeImageData_init dec data w)) = tr_view dec"
  by (simp add: DecodeImageData_init_def Let_def)

lemma tr_view_DecodeImageData [tr_frame]:
  "tr_view (fst (snd (DecodeImageData dec data w h lr pf a))) = tr_view dec"
  by (auto simp: DecodeImageData_def Let_def call_process_final_def tr_frame
           split: prod.split option.split dest!: tr_view_loop_eq)


lemma tr_view_set_error [simp]: "tr_view (set_error dec) = tr_view dec"
  by (simp add: set_error_def)

lemma tr_view_ReadHuffmanCodeLengths [tr_frame]:
  "tr_view (fst (snd (ReadHuffmanCodeLengths build dec cclc n cl))) = tr_view dec"
  by (simp add: ReadHuffmanCodeLengths_def Let_def split_def del: code_lengths_loop.simps)

lemma tr_view_ReadHuffmanCode [tr_frame]:
  "tr_view (fst (snd (ReadHuffmanCode build a dec cl))) = tr_view dec"
proof -
  have fin: "tr_view (fst (snd (ReadHuffmanCode_finish build a ok d c))) = tr_view d" for ok d c
    by (simp add: ReadHuffmanCode_finish_def Let_def)
  have len: "ReadHuffmanCodeLengths build d cclc n c = (ok, d', c') \<Longrightarrow> tr_view d' = tr_view d"
    for d d' :: "'a vp8l_decoder" and cclc n c ok c'
    using tr_view_ReadHuffmanCodeLengths [of build d cclc n c] by simp
  show ?thesis
    by (auto simp: ReadHuffmanCode_def Let_def fin split: prod.split dest!: len)
qed

lemma tr_view_read_htree_group:
  "read_htree_group build ccb js dec cl tables hs triv = (ok, dec', r) \<Longrightarrow> tr_view dec' = tr_view dec"
proof (induction js arbitrary: dec cl tables hs triv)
  case (Cons j js)
  then show ?case
    using tr_view_ReadHuffmanCode [of build "alphabet_size_of ccb j" dec cl]
    by (auto simp: Let_def split: prod.splits if_splits)
qed simp

lemma tr_view_read_htree_groups:
  "read_htree_groups build ccb n dec cl tables groups = (ok, dec', r) \<Longrightarrow> tr_view dec' = tr_view dec"
proof (induction n arbitrary: dec cl tables groups)
  case (Suc n)
  then show ?case
    by (auto simp: Let_def split: prod.splits if_splits dest!: tr_view_read_htree_group)
qed simp

lemma tr_view_ReadHuffmanCodes [tr_frame]:
  "tr_view (snd (ReadHuffmanCodes build ds al dec xs ys ccb False)) = tr_view dec"
  by (auto simp: ReadHuffmanCodes_def ReadHuffmanCodes_meta_def Let_def simp del: read_htree_groups.simps
           split: prod.split dest!: tr_view_read_htree_groups)

lemma tr_view_read_color_cache_bits [tr_frame]:
  "tr_view (snd (snd (read_color_cache_bits d))) = tr_view d"
  by (simp add: read_color_cache_bits_def Let_def split: prod.split)

lemma tr_view_UpdateDecoder [tr_frame]: "tr_view (UpdateDecoder d w h) = tr_view d"
  by (simp add: UpdateDecoder_def Let_def tr_view_def)

lemma tr_view_DecodeImageStream_sub [tr_frame]:
  "tr_view (fst (snd (DecodeImageStream_sub build alloc xs ys dec))) = tr_view dec"
  by (simp add: DecodeImageStream_sub_def DecodeImageStream_tail_def Let_def split_def stream_fail_def
      tr_frame)

lemma unseen_types_set:
  assumes "t < NUM_TRANSFORMS" "\<not> bit (dec_transforms_seen dec) t"
    "dec_transforms_seen dec' = dec_transforms_seen dec OR push_bit t 1"
  shows "Suc (unseen_types dec') = unseen_types dec"
  unfolding unseen_types_def
  by (rule length_filter_remove1) (use assms in \<open>auto simp: bit_or_iff bit_push_bit_iff bit_exp_iff\<close>)

lemma tr_view_sub_eq:
  "DecodeImageStream_sub build alloc x y d = (ok, d', data) \<Longrightarrow>
   dec_state d' = dec_state d \<and> dec_next_transform d' = dec_next_transform d
   \<and> dec_transforms_seen d' = dec_transforms_seen d \<and> dec_transforms d' = dec_transforms d"
  using tr_view_DecodeImageStream_sub [of build alloc x y d] by (simp add: tr_view_def)

lemma ExpandColorMap_type [simp]: "tr_type (snd (ExpandColorMap a n t)) = tr_type t"
  by (simp add: ExpandColorMap_def Let_def)

lemma ExpandColorMap_type_eq: "ExpandColorMap a n t = (ok, t') \<Longrightarrow> tr_type t' = tr_type t"
  using ExpandColorMap_type [of a n t] by simp

lemma ReadTransform_cases:
  assumes "ReadTransform build alloc xs ys dec = (ok, xs', dec')"
  shows "(\<not> ok \<and> tr_view dec' = tr_view dec)
    \<or> (\<exists>t tr. t < NUM_TRANSFORMS \<and> \<not> bit (dec_transforms_seen dec) t
         \<and> dec_transforms_seen dec' = dec_transforms_seen dec OR push_bit t 1
         \<and> dec_next_transform dec' = Suc (dec_next_transform dec)
         \<and> dec_transforms dec' = (dec_transforms dec)[dec_next_transform dec := tr]
         \<and> dec_state dec' = dec_state dec \<and> tr_type tr = transform_type_of t)"
proof -
  obtain t br where rb: "VP8LReadBits (dec_br dec) 2 = (t, br)" by fastforce
  have t4: "t < NUM_TRANSFORMS"
    using VP8LReadBits_bound [of "dec_br dec" 2] rb by (simp add: NUM_TRANSFORMS_def)
  show ?thesis
  proof (cases "bit (dec_transforms_seen dec) t")
    case True
    then show ?thesis using assms rb by (auto simp: ReadTransform_def tr_view_def)
  next
    case unseen: False
    define n where "n = dec_next_transform dec"
    define tr0 where "tr0 = (dec_transforms dec ! n)\<lparr>tr_type := transform_type_of t, tr_xsize := xs,
                              tr_ysize := ys, tr_data := []\<rparr>"
    define dec1 where "dec1 = set_transform (dec\<lparr>dec_br := br,
        dec_transforms_seen := dec_transforms_seen dec OR push_bit t 1, dec_next_transform := Suc n\<rparr>) n tr0"
    have d1: "dec_transforms_seen dec1 = dec_transforms_seen dec OR push_bit t 1"
      "dec_next_transform dec1 = Suc n" "dec_state dec1 = dec_state dec"
      "dec_transforms dec1 = (dec_transforms dec)[n := tr0]"
      by (simp_all add: dec1_def set_transform_def)
    have gen: "dec_transforms_seen dec' = dec_transforms_seen dec OR push_bit t 1
         \<and> dec_next_transform dec' = Suc n \<and> dec_state dec' = dec_state dec
         \<and> (\<exists>tr. dec_transforms dec' = (dec_transforms dec)[n := tr] \<and> tr_type tr = transform_type_of t)"
    proof (cases "transform_type_of t")
      case SUBTRACT_GREEN
      then show ?thesis using assms d1 using rb unseen by (auto simp: ReadTransform_def Let_def set_transform_def n_def tr0_def)
    next
      case COLOR_INDEXING_TRANSFORM
      then show ?thesis using assms d1
        using rb unseen by (auto simp: ReadTransform_def Let_def set_transform_def n_def split: prod.splits if_splits dest!: tr_view_sub_eq ExpandColorMap_type_eq)
    next
      case PREDICTOR_TRANSFORM
      then show ?thesis using assms d1
        using rb unseen by (auto simp: ReadTransform_def Let_def set_transform_def n_def split: prod.splits dest!: tr_view_sub_eq)
    next
      case CROSS_COLOR_TRANSFORM
      then show ?thesis using assms d1
        using rb unseen by (auto simp: ReadTransform_def Let_def set_transform_def n_def split: prod.splits dest!: tr_view_sub_eq)
    qed
    then show ?thesis using t4 unseen by (auto simp: n_def)
  qed
qed

lemma ReadTransform_unseen:
  assumes "ReadTransform build alloc xs ys dec = (True, xs', dec')"
  shows "unseen_types dec' < unseen_types dec"
proof -
  obtain t tr where "t < NUM_TRANSFORMS" "\<not> bit (dec_transforms_seen dec) t"
    "dec_transforms_seen dec' = dec_transforms_seen dec OR push_bit t 1"
    using ReadTransform_cases [OF assms] by auto
  then have "Suc (unseen_types dec') = unseen_types dec" by (rule unseen_types_set)
  then show ?thesis by simp
qed

lemma unseen_types_br [simp]: "unseen_types (dec\<lparr>dec_br := b\<rparr>) = unseen_types dec"
  by (simp add: unseen_types_def)

subsection \<open>The palette and the sub-streams\<close>

lemma length_argb_bytes [simp]: "length (argb_bytes ws) = 4 * length ws"
  by (induction ws) (simp_all add: argb_bytes_def)

lemma argb_bytes_nth:
  "m < length ws \<Longrightarrow> j < 4 \<Longrightarrow> argb_bytes ws ! (4 * m + j) = pbyte (ws ! m) j"
proof (induction ws arbitrary: m)
  case (Cons w ws)
  then show ?case
    by (cases m) (simp_all add: argb_bytes_def nth_append)
qed simp

lemma length_bytes_argb [simp]: "length (bytes_argb bs) = length bs div 4"
  by (simp add: bytes_argb_def)

lemma bytes_argb_pbyte:
  assumes "k < length bs div 4" "j < 4"
  shows "pbyte (bytes_argb bs ! k) j = bs ! (4 * k + j)"
proof -
  have "length (take 4 (drop (4 * k) bs)) = 4" using assms(1) by simp
  then show ?thesis using assms
    by (simp add: bytes_argb_def pbyte_le_value)
qed

lemma color_prefix_step:
  assumes "4 \<le> k"
  shows "color_prefix data k = data ! k + color_prefix data (k - 4)"
proof -
  obtain k' where k: "k = k' + 4" using assms by (metis le_add_diff_inverse2)
  have "(k' + 4) div 4 = Suc (k' div 4)" "(k' + 4) mod 4 = k' mod 4" by simp_all
  moreover have "4 * Suc (k' div 4) + k' mod 4 = k' + 4" by simp
  ultimately show ?thesis
    unfolding color_prefix_def k by (simp add: sum.atMost_Suc add.commute)
qed

lemma color_prefix_small: "i < 4 \<Longrightarrow> color_prefix data i = data ! i"
  by (simp add: color_prefix_def)

lemma expand_loop:
  assumes "4 \<le> k" "k \<le> length data"
  shows "length (foldl (\<lambda>new i. new @ [data ! i + new ! (i - 4)]) (take 4 data) [4..<k]) = k
       \<and> (\<forall>i<k. foldl (\<lambda>new i. new @ [data ! i + new ! (i - 4)]) (take 4 data) [4..<k] ! i = color_prefix data i)"
  using assms
proof (induction k)
  case 0
  then show ?case by simp
next
  case (Suc k)
  show ?case
  proof (cases "k < 4")
    case True
    then have "Suc k = 4" using Suc.prems by simp
    then show ?thesis using Suc.prems by (simp add: color_prefix_small)
  next
    case False
    let ?F = "foldl (\<lambda>new i. new @ [data ! i + new ! (i - 4)]) (take 4 data) [4..<k]"
    have ih: "length ?F = k \<and> (\<forall>i<k. ?F ! i = color_prefix data i)"
      using Suc False by simp
    have "[4..<Suc k] = [4..<k] @ [k]" using False by simp
    then have "foldl (\<lambda>new i. new @ [data ! i + new ! (i - 4)]) (take 4 data) [4..<Suc k]
               = ?F @ [data ! k + ?F ! (k - 4)]" by simp
    moreover have "data ! k + ?F ! (k - 4) = color_prefix data k"
      using ih False color_prefix_step [of k data] by simp
    ultimately show ?thesis using ih by (auto simp: nth_append less_Suc_eq)
  qed
qed

lemma expand_color_bytes_nth:
  assumes "0 < n" "n \<le> f" "4 * n \<le> length data" "i < 4 * f"
  shows "length (expand_color_bytes data n f) = 4 * f
       \<and> expand_color_bytes data n f ! i = (if i < 4 * n then color_prefix data i else 0)"
proof -
  have "max 4 (4 * n) = 4 * n" using assms(1) by simp
  moreover have "4 \<le> 4 * n" using assms(1) by simp
  ultimately show ?thesis
    using expand_loop [of "4 * n" data] assms by (simp add: expand_color_bytes_def Let_def nth_append)
qed

lemma color_prefix_pixels:
  assumes "k < length ws" "j < 4"
  shows "color_prefix (argb_bytes ws) (4 * k + j) = (\<Sum>m\<le>k. pbyte (ws ! m) j)"
proof -
  have "(4 * k + j) div 4 = k" "(4 * k + j) mod 4 = j" using assms(2) by simp_all
  then show ?thesis
    using assms by (simp add: color_prefix_def argb_bytes_nth)
qed

lemma DecodeImageStream_tail_level0_fail:
  "DecodeImageStream_tail build alloc ds True ok xs ys dec = (False, d', data) \<Longrightarrow>
   dec_status d' = VP8_STATUS_BITSTREAM_ERROR \<or> dec_status d' = VP8_STATUS_OUT_OF_MEMORY"
  by (auto simp: DecodeImageStream_tail_def Let_def stream_fail_def set_error_def
           split: prod.splits if_splits)

lemma ReadHuffmanCodes_no_alloc: "ReadHuffmanCodes build ds False dec xs ys ccb ar = (r, d) \<Longrightarrow> \<not> r"
  by (auto simp: ReadHuffmanCodes_def Let_def split: prod.splits if_splits)

lemma DecodeImageStream_tail_huffman_oom:
  "\<not> alloc ALLOC_HUFFMAN \<Longrightarrow> DecodeImageStream_tail build alloc ds lvl ok xs ys dec = (r, d', data) \<Longrightarrow>
   \<not> r \<and> dec_status d' = VP8_STATUS_BITSTREAM_ERROR"
  by (auto simp: DecodeImageStream_tail_def Let_def stream_fail_def set_error_def
           split: prod.splits if_splits dest: ReadHuffmanCodes_no_alloc)

subsection \<open>Properties\<close>

lemma ExpandColorMap_bytes:
  assumes "ExpandColorMap True n t = (ok, t')" "0 < n" "n \<le> 2 ^ drop_bit (tr_bits t) 8"
    "n \<le> length (tr_data t)"
  shows "length (tr_data t') = 2 ^ drop_bit (tr_bits t) 8
    \<and> (\<forall>k < length (tr_data t'). \<forall>j < 4. pbyte (tr_data t' ! k) j
          = (if k < n then (\<Sum>m\<le>k. pbyte (tr_data t ! m) j) else 0))"
proof -
  define f where "f = (2::nat) ^ drop_bit (tr_bits t) 8"
  define E where "E = expand_color_bytes (argb_bytes (tr_data t)) n f"
  have t': "tr_data t' = bytes_argb E" using assms(1) by (auto simp: ExpandColorMap_def E_def f_def Let_def)
  have lenE: "length E = 4 * f"
    using expand_color_bytes_nth [of n f "argb_bytes (tr_data t)" 0] assms(2-4)
    by (simp add: E_def f_def)
  have px: "pbyte (tr_data t' ! k) j = (if k < n then (\<Sum>m\<le>k. pbyte (tr_data t ! m) j) else 0)"
    if "k < f" "j < 4" for k j
  proof -
    have "pbyte (tr_data t' ! k) j = E ! (4 * k + j)"
      using that lenE by (simp add: t' bytes_argb_pbyte)
    also have "\<dots> = (if 4 * k + j < 4 * n then color_prefix (argb_bytes (tr_data t)) (4 * k + j) else 0)"
      using expand_color_bytes_nth [of n f "argb_bytes (tr_data t)" "4 * k + j"] assms(2-4) that
      by (simp add: E_def f_def)
    also have "\<dots> = (if k < n then (\<Sum>m\<le>k. pbyte (tr_data t ! m) j) else 0)"
      using that assms(4) by (auto simp: color_prefix_pixels)
    finally show ?thesis .
  qed
  show ?thesis using px lenE by (simp add: t' f_def)
qed

lemma prefix_sums_zero:
  fixes g :: "nat \<Rightarrow> 'a::comm_ring_1"
  shows "(\<forall>k<n. (\<Sum>m<k. \<Sum>i\<le>m. g i) = 0) \<longleftrightarrow> (\<forall>m. Suc m < n \<longrightarrow> g m = 0)"
proof
  assume z: "\<forall>m. Suc m < n \<longrightarrow> g m = 0"
  show "\<forall>k<n. (\<Sum>m<k. \<Sum>i\<le>m. g i) = 0"
  proof (intro allI impI)
    fix k assume "k < n"
    then have "\<forall>m<k. \<forall>i\<le>m. g i = 0" using z by auto
    then show "(\<Sum>m<k. \<Sum>i\<le>m. g i) = 0" by simp
  qed
next
  assume z: "\<forall>k<n. (\<Sum>m<k. \<Sum>i\<le>m. g i) = 0"
  have p: "(\<Sum>i\<le>m. g i) = 0" if "Suc m < n" for m
  proof -
    have a: "(\<Sum>m'<Suc m. \<Sum>i\<le>m'. g i) = 0" using z that by blast
    have b: "(\<Sum>m'<m. \<Sum>i\<le>m'. g i) = 0" using z that by simp
    from a show ?thesis by (simp only: sum.lessThan_Suc b) simp
  qed
  show "\<forall>m. Suc m < n \<longrightarrow> g m = 0"
  proof (intro allI impI)
    fix m assume m: "Suc m < n"
    show "g m = 0"
    proof (cases m)
      case 0
      then show ?thesis using p [OF m] by simp
    next
      case (Suc m')
      then show ?thesis using p [OF m] p [of m'] m by simp
    qed
  qed
qed

lemma pixels_eq_bytes:
  "(xs = ys) \<longleftrightarrow> length xs = length ys \<and> (\<forall>k<length xs. \<forall>j<4. pbyte (xs ! k) j = pbyte (ys ! k) j)"
  by (auto intro!: nth_equalityI pbyte_eqI)

text \<open>
  C21. \<open>ExpandColorMap\<close> builds the palette the colour-indexing transform indexes: it
  has \<open>1 << (8 >> bits)\<close> colours; colour \<open>k < num_colors\<close> has in each of its four
  byte lanes the sum modulo 256 of that lane over the colours \<open>0..k\<close> of the stream
  (the palette is delta coded, spec 4.6), and the remaining colours are black.
\<close>

theorem ExpandColorMap_prefix_sums:
  assumes "ExpandColorMap True n t = (ok, t')" "0 < n" "n \<le> 2 ^ drop_bit (tr_bits t) 8"
    "n \<le> length (tr_data t)"
  shows "length (tr_data t') = 2 ^ drop_bit (tr_bits t) 8
    \<and> (\<forall>k < length (tr_data t'). \<forall>j < 4. pbyte (tr_data t' ! k) j
          = (if k < n then (\<Sum>m\<le>k. pbyte (tr_data t ! m) j) else 0))"
  using assms by (rule ExpandColorMap_bytes)

theorem ExpandColorMap_prefix_sums_witness:
  "length (tr_data (snd (ExpandColorMap True 2 palette_fx))) = 2
   \<and> pbyte (tr_data (snd (ExpandColorMap True 2 palette_fx)) ! 1) 0 = 2"
proof -
  have h: "ExpandColorMap True 2 palette_fx = (True, snd (ExpandColorMap True 2 palette_fx))"
    by (simp add: ExpandColorMap_def Let_def)
  have "length (tr_data (snd (ExpandColorMap True 2 palette_fx))) = 2 ^ drop_bit (tr_bits palette_fx) 8
    \<and> (\<forall>k < length (tr_data (snd (ExpandColorMap True 2 palette_fx))). \<forall>j < 4.
         pbyte (tr_data (snd (ExpandColorMap True 2 palette_fx)) ! k) j
          = (if k < 2 then (\<Sum>m\<le>k. pbyte (tr_data palette_fx ! m) j) else 0))"
    by (rule ExpandColorMap_prefix_sums [OF h]) (simp_all add: palette_fx_def)
  then have len: "length (tr_data (snd (ExpandColorMap True 2 palette_fx))) = 2"
    and px: "\<forall>k < length (tr_data (snd (ExpandColorMap True 2 palette_fx))). \<forall>j < 4.
         pbyte (tr_data (snd (ExpandColorMap True 2 palette_fx)) ! k) j
          = (if k < 2 then (\<Sum>m\<le>k. pbyte (tr_data palette_fx ! m) j) else 0)"
    by (simp_all add: palette_fx_def)
  have "pbyte (tr_data (snd (ExpandColorMap True 2 palette_fx)) ! 1) 0
          = (\<Sum>m\<le>1. pbyte (tr_data palette_fx ! m) 0)"
    using px len by simp
  also have "\<dots> = 2" by (simp add: palette_fx_def pbyte_def atMost_Suc)
  finally show ?thesis using len by simp
qed

lemma VP8LSubSampleSize_bounds:
  "x \<le> VP8LSubSampleSize x b * 2 ^ b \<and> VP8LSubSampleSize x b * 2 ^ b < x + 2 ^ b"
proof -
  define m :: nat where "m = 2 ^ b"
  have m: "0 < m" by (simp add: m_def)
  have q: "VP8LSubSampleSize x b * m = (x + m - 1) - (x + m - 1) mod m"
    by (simp add: VP8LSubSampleSize_def drop_bit_eq_div m_def minus_mod_eq_div_mult)
  have "(x + m - 1) mod m < m" using m by simp
  then show ?thesis using m q unfolding m_def [symmetric] by linarith
qed

text \<open>
  C22. The colour-indexing transform packs \<open>2 ^ bits\<close> palette indices into a byte
  (lines 1183--1187): every index of an \<open>n\<close>-colour palette fits in \<open>8 >> bits\<close> bits, so
  the expanded palette of \<open>1 << (8 >> bits)\<close> colours covers it; \<open>bits\<close> is the densest
  such packing; and the packed width \<open>VP8LSubSampleSize(xsize, bits)\<close> holds all
  \<open>xsize\<close> pixels of a row with less than one byte of slack.
\<close>

theorem color_index_bits_packing:
  assumes "0 < n" "n \<le> 256"
  shows "color_index_bits n \<le> 3 \<and> n \<le> 2 ^ drop_bit (color_index_bits n) 8
     \<and> (color_index_bits n < 3 \<longrightarrow> 2 ^ drop_bit (Suc (color_index_bits n)) 8 < n)
     \<and> xsize \<le> VP8LSubSampleSize xsize (color_index_bits n) * 2 ^ color_index_bits n
     \<and> VP8LSubSampleSize xsize (color_index_bits n) * 2 ^ color_index_bits n < xsize + 2 ^ color_index_bits n"
proof -
  have "color_index_bits n \<le> 3 \<and> n \<le> 2 ^ drop_bit (color_index_bits n) 8
        \<and> (color_index_bits n < 3 \<longrightarrow> 2 ^ drop_bit (Suc (color_index_bits n)) 8 < n)"
    using assms by (simp add: color_index_bits_def drop_bit_eq_div)
  then show ?thesis using VP8LSubSampleSize_bounds by blast
qed

theorem color_index_bits_packing_witness:
  "color_index_bits 5 = 1 \<and> VP8LSubSampleSize 7 (color_index_bits 5) = 4"
proof -
  have c: "color_index_bits 5 = 1" by (simp add: color_index_bits_def)
  have "7 \<le> VP8LSubSampleSize 7 (color_index_bits 5) * 2 ^ color_index_bits 5
        \<and> VP8LSubSampleSize 7 (color_index_bits 5) * 2 ^ color_index_bits 5 < 7 + 2 ^ color_index_bits 5"
    using color_index_bits_packing [of 5 7] by simp
  then show ?thesis using c by simp
qed

text \<open>
  C26. Expanding an expanded palette again (\<open>ExpandColorMap\<close> twice) gives the same
  palette exactly when the first \<open>num_colors - 1\<close> colours of the stream are all zero:
  the second expansion adds the prefix sums once more.  Spec 8, property 7, states that
  a second expansion is a no-op up to \<open>num_colors\<close>; the code does not do that for any
  palette with a non-zero colour before its last one.
\<close>

theorem ExpandColorMap_twice:
  assumes "ExpandColorMap True n t = (ok, t1)" "ExpandColorMap True n t1 = (ok', t2)"
    "0 < n" "n \<le> 2 ^ drop_bit (tr_bits t) 8" "n \<le> length (tr_data t)"
  shows "tr_data t2 = tr_data t1 \<longleftrightarrow> (\<forall>k. Suc k < n \<longrightarrow> tr_data t ! k = 0)"
proof -
  define P where "P k j = (\<Sum>m\<le>k. pbyte (tr_data t ! m) j)" for k j
  have bits: "tr_bits t1 = tr_bits t" using assms(1) by (auto simp: ExpandColorMap_def Let_def)
  note e1 = ExpandColorMap_bytes [OF assms(1,3-5)]
  then have l1: "length (tr_data t1) = 2 ^ drop_bit (tr_bits t) 8" by simp
  note e2 = ExpandColorMap_bytes [OF assms(2,3)] 
  have e2': "length (tr_data t2) = 2 ^ drop_bit (tr_bits t) 8
    \<and> (\<forall>k < length (tr_data t2). \<forall>j < 4. pbyte (tr_data t2 ! k) j
          = (if k < n then (\<Sum>m\<le>k. pbyte (tr_data t1 ! m) j) else 0))"
    using e2 assms(4) l1 bits by simp
  have b1: "pbyte (tr_data t1 ! k) j = (if k < n then P k j else 0)" if "k < length (tr_data t1)" "j < 4" for k j
    using e1 that by (simp add: P_def)
  have b2: "pbyte (tr_data t2 ! k) j = (if k < n then (\<Sum>m\<le>k. P m j) else 0)"
    if "k < length (tr_data t1)" "j < 4" for k j
  proof -
    have "\<forall>m\<le>k. k < n \<longrightarrow> pbyte (tr_data t1 ! m) j = P m j"
      using b1 that l1 by simp
    then show ?thesis using e2' that l1 by simp
  qed
  have "tr_data t2 = tr_data t1 \<longleftrightarrow> (\<forall>k<n. \<forall>j<4. (\<Sum>m\<le>k. P m j) = P k j)"
    using b1 b2 e2' l1 assms(4) by (auto simp: pixels_eq_bytes [of "tr_data t2"])
  also have "\<dots> \<longleftrightarrow> (\<forall>j<4. \<forall>k<n. (\<Sum>m<k. \<Sum>i\<le>m. pbyte (tr_data t ! i) j) = 0)"
    by (auto simp: P_def lessThan_Suc_atMost [symmetric])
  also have "\<dots> \<longleftrightarrow> (\<forall>j<4. \<forall>m. Suc m < n \<longrightarrow> pbyte (tr_data t ! m) j = 0)"
    by (simp only: prefix_sums_zero)
  also have "\<dots> \<longleftrightarrow> (\<forall>k. Suc k < n \<longrightarrow> tr_data t ! k = 0)"
    by (auto intro: pbyte_eqI simp: pbyte_def)
  finally show ?thesis .
qed


theorem ExpandColorMap_twice_witness:
  "tr_data (snd (ExpandColorMap True 2 (snd (ExpandColorMap True 2 palette_fx))))
   \<noteq> tr_data (snd (ExpandColorMap True 2 palette_fx))"
proof
  have h1: "ExpandColorMap True 2 palette_fx = (True, snd (ExpandColorMap True 2 palette_fx))"
    by (simp add: ExpandColorMap_def Let_def)
  have h2: "ExpandColorMap True 2 (snd (ExpandColorMap True 2 palette_fx))
            = (True, snd (ExpandColorMap True 2 (snd (ExpandColorMap True 2 palette_fx))))"
    by (simp add: ExpandColorMap_def Let_def)
  assume "tr_data (snd (ExpandColorMap True 2 (snd (ExpandColorMap True 2 palette_fx))))
          = tr_data (snd (ExpandColorMap True 2 palette_fx))"
  then have "\<forall>k. Suc k < 2 \<longrightarrow> tr_data palette_fx ! k = 0"
    using ExpandColorMap_twice [OF h1 h2] by (simp add: palette_fx_def)
  then have "tr_data palette_fx ! 0 = 0" by simp
  then show False by (simp add: palette_fx_def)
qed

end
