(* ===== verification/ImageStream.thy ===== *)
theory ImageStream
  imports Transforms
begin

text \<open>
  The top-level image stream and the decoder API around it (vp8l.cpp, lines 1225--1253,
  1272--1290 and 1489--1516): the transform loop \<open>while (ok && VP8LReadBits(br, 1))\<close>
  of \<open>DecodeImageStream\<close> at level 0, \<open>DecodeImageStream\<close> itself with the sub-stream
  reader for the meta-Huffman image, \<open>VP8LNew\<close>, \<open>VP8LClear\<close> and \<open>VP8LDecodeHeader\<close>.
  The transform loop is a total function: a pass that continues has read a transform of
  a type not seen before, so the number of unseen types (\<open>unseen_types\<close>, at most four)
  decreases.
\<close>

function read_transforms_loop ::
  "huffman_builder \<Rightarrow> (alloc_site \<Rightarrow> bool) \<Rightarrow> nat \<Rightarrow> nat \<Rightarrow> 'o vp8l_decoder
   \<Rightarrow> bool \<times> nat \<times> 'o vp8l_decoder" where
  "read_transforms_loop build alloc xsize ysize dec =
     (let (more, br) = VP8LReadBits (dec_br dec) 1;
          dec = dec\<lparr>dec_br := br\<rparr>
      in if more = 0 then (True, xsize, dec)
         else
           (let (ok, xsize, dec) = ReadTransform build alloc xsize ysize dec
            in if ok then read_transforms_loop build alloc xsize ysize dec else (False, xsize, dec)))"
  by pat_completeness auto
termination
  by (relation "measure (\<lambda>(build, alloc, xsize, ysize, dec). unseen_types dec)")
     (auto dest: ReadTransform_unseen [OF sym])

declare read_transforms_loop.simps [simp del]

text \<open>
  \<open>DecodeImageStream(xsize, ysize, 1, dec, NULL)\<close>: the transform loop, then the
  rest of the stream with the sub-stream as the reader of the meta-Huffman image.
\<close>

definition DecodeImageStream ::
  "huffman_builder \<Rightarrow> (alloc_site \<Rightarrow> bool) \<Rightarrow> nat \<Rightarrow> nat \<Rightarrow> 'o vp8l_decoder
   \<Rightarrow> bool \<times> 'o vp8l_decoder" where
  "DecodeImageStream build alloc xsize ysize dec =
     (let (ok, transform_xsize, dec) = read_transforms_loop build alloc xsize ysize dec;
          (ok, dec, data) = DecodeImageStream_tail build alloc (sub_stream_reader build alloc) True ok
                              transform_xsize ysize dec
      in (ok, dec))"

text \<open>A transform as \<open>calloc\<close> leaves it.\<close>

definition zero_transform :: vp8l_transform where
  "zero_transform = \<lparr>tr_type = PREDICTOR_TRANSFORM, tr_bits = 0, tr_xsize = 0, tr_ysize = 0, tr_data = []\<rparr>"

text \<open>\<open>VP8LNew\<close>: a zeroed decoder in state \<open>READ_DIM\<close> with status \<open>OK\<close>; \<open>io\<close> is the
  row pipeline's initial state.\<close>

definition VP8LNew :: "'o \<Rightarrow> 'o vp8l_decoder" where
  "VP8LNew io = \<lparr>dec_status = VP8_STATUS_OK, dec_state = READ_DIM, dec_next_transform = 0,
     dec_transforms_seen = 0, dec_transforms = replicate NUM_TRANSFORMS zero_transform,
     dec_br = VP8LInitBitReader [], dec_saved_br = VP8LInitBitReader [], dec_last_pixel = 0,
     dec_saved_last_pixel = 0, dec_incremental = False, dec_width = 0, dec_height = 0,
     dec_hdr = InitMetadata, dec_io = io\<rparr>"

text \<open>\<open>VP8LClear\<close>: the header and the first \<open>next_transform_\<close> transforms are cleared,
  the transform counters reset.\<close>

definition VP8LClear :: "'o vp8l_decoder \<Rightarrow> 'o vp8l_decoder" where
  "VP8LClear dec =
     (let n = dec_next_transform dec
      in dec\<lparr>dec_hdr := ClearMetadata (dec_hdr dec),
             dec_transforms := map ClearTransform (take n (dec_transforms dec)) @ drop n (dec_transforms dec),
             dec_next_transform := 0, dec_transforms_seen := 0\<rparr>)"

text \<open>The numbering of \<open>VP8LImageTransformType\<close>.\<close>

fun transform_type_num :: "VP8LImageTransformType \<Rightarrow> nat" where
  "transform_type_num PREDICTOR_TRANSFORM = 0"
| "transform_type_num CROSS_COLOR_TRANSFORM = 1"
| "transform_type_num SUBTRACT_GREEN = 2"
| "transform_type_num COLOR_INDEXING_TRANSFORM = 3"

text \<open>The transform part of a decoder is consistent: the array has its four slots, the
  transforms read and the types not yet seen add up to four, the types read are distinct
  and each has its bit in \<open>transforms_seen_\<close>.\<close>

definition tr_inv :: "'o vp8l_decoder \<Rightarrow> bool" where
  "tr_inv dec \<longleftrightarrow> length (dec_transforms dec) = NUM_TRANSFORMS
     \<and> dec_next_transform dec + unseen_types dec = NUM_TRANSFORMS
     \<and> distinct (map tr_type (take (dec_next_transform dec) (dec_transforms dec)))
     \<and> list_all (\<lambda>tr. bit (dec_transforms_seen dec) (transform_type_num (tr_type tr)))
         (take (dec_next_transform dec) (dec_transforms dec))"

text \<open>
  \<open>VP8LDecodeHeader\<close>: \<open>io\<close> is the input buffer of the \<open>VP8Io\<close> (\<open>None\<close> for a null
  \<open>io\<close>); the result is the return value, the decoder, and the size written to
  \<open>io->width\<close>/\<open>io->height\<close>.
\<close>

definition VP8LDecodeHeader ::
  "huffman_builder \<Rightarrow> (alloc_site \<Rightarrow> bool) \<Rightarrow> u8 list option \<Rightarrow> 'o vp8l_decoder
   \<Rightarrow> bool \<times> 'o vp8l_decoder \<times> (nat \<times> nat) option" where
  "VP8LDecodeHeader build alloc io dec =
     (case io of
        None \<Rightarrow> (False, dec\<lparr>dec_status := VP8_STATUS_INVALID_PARAM\<rparr>, None)
      | Some data \<Rightarrow>
          (let dec = dec\<lparr>dec_status := VP8_STATUS_OK, dec_br := VP8LInitBitReader data\<rparr>;
               (info, br) = ReadImageInfo (dec_br dec);
               dec = dec\<lparr>dec_br := br\<rparr>
           in case info of
                None \<Rightarrow> (False, VP8LClear (dec\<lparr>dec_status := VP8_STATUS_BITSTREAM_ERROR\<rparr>), None)
              | Some (width, height, has_alpha) \<Rightarrow>
                  (let (ok, dec) = DecodeImageStream build alloc width height (dec\<lparr>dec_state := READ_DIM\<rparr>)
                   in if ok then (True, dec, Some (width, height))
                      else (False, VP8LClear dec, Some (width, height)))))"

subsection \<open>Lemmas\<close>

lemma transform_type_num_of: "t < NUM_TRANSFORMS \<Longrightarrow> transform_type_num (transform_type_of t) = t"
  by (auto simp: transform_type_of_def NUM_TRANSFORMS_def)

lemma take_Suc_update: "n < length xs \<Longrightarrow> take (Suc n) (xs[n := x]) = take n xs @ [x]"
  by (simp add: take_Suc_conv_app_nth)

lemma tr_inv_view: "tr_view d' = tr_view d \<Longrightarrow> tr_inv d' = tr_inv d"
  by (simp add: tr_view_def tr_inv_def unseen_types_def)

lemma ReadTransform_tr_inv:
  assumes "ReadTransform build alloc xs ys dec = (ok, xs', dec')" "tr_inv dec"
  shows "tr_inv dec'"
  using ReadTransform_cases [OF assms(1)]
proof
  assume "\<not> ok \<and> tr_view dec' = tr_view dec"
  then show ?thesis using assms(2) tr_inv_view by blast
next
  assume "\<exists>t tr. t < NUM_TRANSFORMS \<and> \<not> bit (dec_transforms_seen dec) t
         \<and> dec_transforms_seen dec' = dec_transforms_seen dec OR push_bit t 1
         \<and> dec_next_transform dec' = Suc (dec_next_transform dec)
         \<and> dec_transforms dec' = (dec_transforms dec)[dec_next_transform dec := tr]
         \<and> dec_state dec' = dec_state dec \<and> tr_type tr = transform_type_of t"
  then obtain t tr where t: "t < NUM_TRANSFORMS" "\<not> bit (dec_transforms_seen dec) t"
    and seen: "dec_transforms_seen dec' = dec_transforms_seen dec OR push_bit t 1"
    and nxt: "dec_next_transform dec' = Suc (dec_next_transform dec)"
    and trs: "dec_transforms dec' = (dec_transforms dec)[dec_next_transform dec := tr]"
    and ty: "tr_type tr = transform_type_of t" by blast
  let ?n = "dec_next_transform dec" and ?xs = "dec_transforms dec"
  have u: "Suc (unseen_types dec') = unseen_types dec" using t seen by (rule unseen_types_set)
  have n4: "?n < length ?xs" using assms(2) u by (simp add: tr_inv_def)
  have old: "list_all (\<lambda>tr. bit (dec_transforms_seen dec) (transform_type_num (tr_type tr))) (take ?n ?xs)"
    using assms(2) by (simp add: tr_inv_def)
  have fresh: "tr_type tr \<notin> set (map tr_type (take ?n ?xs))"
  proof
    assume "tr_type tr \<in> set (map tr_type (take ?n ?xs))"
    then have "bit (dec_transforms_seen dec) (transform_type_num (tr_type tr))"
      using old by (auto simp: list_all_iff)
    then show False using t ty transform_type_num_of by simp
  qed
  show ?thesis
    using assms(2) u n4 old fresh t
    by (auto simp: tr_inv_def nxt trs seen take_Suc_update list_all_iff bit_or_iff bit_exp_iff ty
          transform_type_num_of)
qed

lemma read_transforms_loop_tr_inv:
  "read_transforms_loop build alloc xs ys dec = (ok, xs', dec') \<Longrightarrow> tr_inv dec \<Longrightarrow> tr_inv dec'"
proof (induction build alloc xs ys dec rule: read_transforms_loop.induct)
  case (1 build alloc xsize ysize dec)
  obtain more br where rb: "VP8LReadBits (dec_br dec) 1 = (more, br)" by fastforce
  have inv0: "tr_inv (dec\<lparr>dec_br := br\<rparr>)" using "1.prems"(2) by (simp add: tr_inv_def unseen_types_def)
  show ?case
  proof (cases "more = 0")
    case True
    then show ?thesis using "1.prems"(1) rb inv0 by (simp add: read_transforms_loop.simps)
  next
    case False
    obtain r xs1 d1 where rt: "ReadTransform build alloc xsize ysize (dec\<lparr>dec_br := br\<rparr>) = (r, xs1, d1)"
      by (cases "ReadTransform build alloc xsize ysize (dec\<lparr>dec_br := br\<rparr>)") auto
    have inv1: "tr_inv d1" using ReadTransform_tr_inv [OF rt inv0] .
    show ?thesis
    proof (cases r)
      case True
      then have "read_transforms_loop build alloc xs1 ysize d1 = (ok, xs', dec')"
        using "1.prems"(1) rb rt False by (simp add: read_transforms_loop.simps [of build alloc xsize])
      then show ?thesis using "1.IH" [OF refl rb [symmetric] refl False refl rt [symmetric] refl True] inv1
        by simp
    next
      case False
      then show ?thesis using "1.prems"(1) rb rt \<open>more \<noteq> 0\<close> inv1
        by (simp add: read_transforms_loop.simps [of build alloc xsize])
    qed
  qed
qed

lemma VP8LClear_status [simp]: "dec_status (VP8LClear dec) = dec_status dec"
  by (simp add: VP8LClear_def Let_def)

lemma tr_inv_VP8LNew: "tr_inv (VP8LNew io)"
  by (simp add: tr_inv_def VP8LNew_def unseen_types_def NUM_TRANSFORMS_def)

subsection \<open>Properties\<close>

text \<open>
  C23. The transform loop never overruns \<open>transforms_[NUM_TRANSFORMS]\<close> (the
  \<open>assert(dec->next_transform_ <= NUM_TRANSFORMS)\<close> of \<open>ReadTransform\<close> holds) and
  reads each transform type at most once (spec 3), from any decoder whose transform part
  is consistent, such as a new one.
\<close>

theorem read_transforms_loop_distinct:
  assumes "read_transforms_loop build alloc xs ys dec = (ok, xs', dec')" "tr_inv dec"
  shows "dec_next_transform dec' \<le> NUM_TRANSFORMS
    \<and> distinct (map tr_type (take (dec_next_transform dec') (dec_transforms dec')))"
  using read_transforms_loop_tr_inv [OF assms] by (simp add: tr_inv_def)

theorem read_transforms_loop_distinct_witness:
  "dec_next_transform (snd (snd (read_transforms_loop hc_build_fx (\<lambda>s. True) 1 1 (VP8LNew ()))))
     \<le> NUM_TRANSFORMS
   \<and> distinct (map tr_type (take (dec_next_transform (snd (snd (read_transforms_loop hc_build_fx
       (\<lambda>s. True) 1 1 (VP8LNew ())))))
       (dec_transforms (snd (snd (read_transforms_loop hc_build_fx (\<lambda>s. True) 1 1 (VP8LNew ())))))))"
proof -
  have "read_transforms_loop hc_build_fx (\<lambda>s. True) 1 1 (VP8LNew ()) =
      (fst (read_transforms_loop hc_build_fx (\<lambda>s. True) 1 1 (VP8LNew ())),
       fst (snd (read_transforms_loop hc_build_fx (\<lambda>s. True) 1 1 (VP8LNew ()))),
       snd (snd (read_transforms_loop hc_build_fx (\<lambda>s. True) 1 1 (VP8LNew ()))))"
    by simp
  then show ?thesis by (rule read_transforms_loop_distinct [OF _ tr_inv_VP8LNew])
qed

text \<open>
  C24. When \<open>VP8LDecodeHeader\<close> fails, the decoder's status says why: it is never
  \<open>VP8_STATUS_OK\<close>, so the \<open>assert(dec->status_ != VP8_STATUS_OK)\<close> after \<open>Error\<close>
  holds on every path (a null \<open>io\<close>, a bad header, any failure of the top-level stream).
\<close>

theorem VP8LDecodeHeader_error_status:
  assumes "VP8LDecodeHeader build alloc io dec = (False, dec', sz)"
  shows "dec_status dec' \<noteq> VP8_STATUS_OK"
  using assms
  by (auto simp: VP8LDecodeHeader_def DecodeImageStream_def Let_def
           split: option.splits prod.splits if_splits dest!: DecodeImageStream_tail_level0_fail)

theorem VP8LDecodeHeader_error_status_witness:
  "dec_status (fst (snd (VP8LDecodeHeader hc_build_fx (\<lambda>s. True) (Some []) (VP8LNew ()))))
     \<noteq> VP8_STATUS_OK"
proof -
  have "fst (VP8LDecodeHeader hc_build_fx (\<lambda>s. True) (Some []) (VP8LNew ())) = False"
    by code_simp
  then have "VP8LDecodeHeader hc_build_fx (\<lambda>s. True) (Some []) (VP8LNew ()) =
      (False, fst (snd (VP8LDecodeHeader hc_build_fx (\<lambda>s. True) (Some []) (VP8LNew ()))),
       snd (snd (VP8LDecodeHeader hc_build_fx (\<lambda>s. True) (Some []) (VP8LNew ()))))"
    by (rule prod_eq_fst3)
  then show ?thesis by (rule VP8LDecodeHeader_error_status)
qed

text \<open>
  C25. An allocation failure of the Huffman tables is reported as a bitstream error:
  \<open>ReadHuffmanCodes\<close> sets \<open>VP8_STATUS_OUT_OF_MEMORY\<close>, and \<open>DecodeImageStream\<close>
  overwrites it with \<open>VP8_STATUS_BITSTREAM_ERROR\<close> (line 1305), whatever the stream.
  Spec 5 and 7 say an allocation failure sets \<open>OUT_OF_MEMORY\<close>.
\<close>

theorem DecodeImageStream_huffman_oom:
  assumes "\<not> alloc ALLOC_HUFFMAN" "DecodeImageStream build alloc xsize ysize dec = (ok, dec')"
  shows "\<not> ok \<and> dec_status dec' = VP8_STATUS_BITSTREAM_ERROR"
  using assms
  by (auto simp: DecodeImageStream_def Let_def split: prod.splits
           dest!: DecodeImageStream_tail_huffman_oom [where alloc = alloc, OF assms(1)])

theorem DecodeImageStream_huffman_oom_witness:
  "\<not> fst (DecodeImageStream hc_build_fx (\<lambda>s. s \<noteq> ALLOC_HUFFMAN) 1 1 (VP8LNew ()))
   \<and> dec_status (snd (DecodeImageStream hc_build_fx (\<lambda>s. s \<noteq> ALLOC_HUFFMAN) 1 1 (VP8LNew ())))
     = VP8_STATUS_BITSTREAM_ERROR"
  by (rule DecodeImageStream_huffman_oom) simp_all

end
