(* ===== verification/AlphaPath.thy ===== *)
theory AlphaPath
  imports DecodeLoop CopyBlock8
begin

text \<open>
  The 8-bit decoding path of the alpha plane (vp8l.cpp, lines 739--763 and 884--965):
  \<open>Is8bOptimizable\<close>, the row hook \<open>ExtractPalettedAlphaRows\<close> and \<open>DecodeAlphaData\<close>,
  which decodes one byte per pixel, the green code, and copies back-references with
  \<open>CopyBlock8b\<close>.  As for \<open>DecodeImageData\<close>, the loop's locals are a record
  (\<open>ad_state\<close>), a pass ends in \<open>Continue\<close> or \<open>Fail\<close> (\<open>goto End\<close>), and the loop
  is a total function because every pass that continues moves \<open>pos\<close> forward.  The
  kernel \<open>ApplyInverseTransformsAlpha\<close> (dsp/, not under src/) is a parameter of the
  row hook, which keeps the row watermarks \<open>last_row_\<close> and \<open>last_out_row_\<close>.
\<close>

text \<open>The row pipeline's state on the alpha path: the watermarks and the output.\<close>

record 'x alpha_out =
  ao_last_row :: nat
  ao_last_out_row :: nat
  ao_out :: 'x

text \<open>\<open>ExtractPalettedAlphaRows(dec, row)\<close>: the inverse transform on the rows
  \<open>last_row_ .. row - 1\<close>, if any, then both watermarks move to \<open>row\<close>.\<close>

definition ExtractPalettedAlphaRows ::
  "('x \<Rightarrow> nat \<Rightarrow> nat \<Rightarrow> u8 list \<Rightarrow> 'x) \<Rightarrow> 'x alpha_out \<Rightarrow> u8 list \<Rightarrow> nat \<Rightarrow> 'x alpha_out" where
  "ExtractPalettedAlphaRows apply_alpha st data row =
     \<lparr>ao_last_row = row, ao_last_out_row = row,
      ao_out = (if ao_last_row st < row
                then apply_alpha (ao_out st) (ao_last_row st) (row - ao_last_row st) data
                else ao_out st)\<rparr>"

text \<open>\<open>Is8bOptimizable\<close>: no colour cache, and the red, blue and alpha trees of every
  group have a first entry that consumes no bits.\<close>

definition Is8bOptimizable :: "vp8l_metadata \<Rightarrow> bool" where
  "Is8bOptimizable hdr \<longleftrightarrow> color_cache_size hdr = 0
     \<and> list_all (\<lambda>g. hc_bits (huffman_tables hdr ! (htrees g ! RED)) = 0
                    \<and> hc_bits (huffman_tables hdr ! (htrees g ! BLUE)) = 0
                    \<and> hc_bits (huffman_tables hdr ! (htrees g ! ALPHA)) = 0)
         (take (num_htree_groups hdr) (htree_groups hdr))"

text \<open>The parameters of \<open>DecodeAlphaData\<close> and its locals.\<close>

record 'o ad_ctx =
  ac_width :: nat
  ac_height :: nat
  ac_last_row :: nat
  ac_extract :: "'o \<Rightarrow> u8 list \<Rightarrow> nat \<Rightarrow> 'o"
  ac_data_addr :: nat

record 'o ad_state =
  ad_dec :: "'o vp8l_decoder"
  ad_data :: "u8 list"
  ad_pos :: nat
  ad_col :: nat
  ad_row :: nat
  ad_htree_group :: nat

definition ad_set_br :: "'o ad_state \<Rightarrow> bit_reader \<Rightarrow> 'o ad_state" where
  "ad_set_br s b = s\<lparr>ad_dec := (ad_dec s)\<lparr>dec_br := b\<rparr>\<rparr>"

text \<open>\<open>if (row % NUM_ARGB_CACHE_ROWS == 0) ExtractPalettedAlphaRows(dec, row);\<close>\<close>

definition ad_extract :: "'o ad_ctx \<Rightarrow> 'o ad_state \<Rightarrow> 'o ad_state" where
  "ad_extract c s =
     (if ad_row s mod NUM_ARGB_CACHE_ROWS = 0
      then s\<lparr>ad_dec := (ad_dec s)\<lparr>dec_io := ac_extract c (dec_io (ad_dec s)) (ad_data s) (ad_row s)\<rparr>\<rparr>
      else s)"

text \<open>The literal branch's advance: \<open>++pos; ++col; if (col >= width) { ... }\<close>.\<close>

definition ad_advance_by_one :: "'o ad_ctx \<Rightarrow> 'o ad_state \<Rightarrow> 'o ad_state" where
  "ad_advance_by_one c s =
     (let s = s\<lparr>ad_pos := Suc (ad_pos s), ad_col := Suc (ad_col s)\<rparr>
      in if ad_col s \<ge> ac_width c then ad_extract c (s\<lparr>ad_col := 0, ad_row := Suc (ad_row s)\<rparr>) else s)"

text \<open>\<open>while (col >= width) { col -= width; ++row; ... }\<close> after a back-reference; the
  width is positive (the C code divides by it on entry).\<close>

function ad_advance_rows :: "'o ad_ctx \<Rightarrow> 'o ad_state \<Rightarrow> 'o ad_state" where
  "ad_advance_rows c s =
     (if 0 < ac_width c \<and> ac_width c \<le> ad_col s
      then ad_advance_rows c (ad_extract c (s\<lparr>ad_col := ad_col s - ac_width c, ad_row := Suc (ad_row s)\<rparr>))
      else s)"
  by pat_completeness auto
termination
  by (relation "measure (\<lambda>(c, s). ad_col s)") (auto simp: ad_extract_def)

declare ad_advance_rows.simps [simp del]

text \<open>
  The back-reference branch of \<open>DecodeAlphaData\<close>: length and distance, the bounds check
  \<open>pos >= dist && end - pos >= length\<close> (else \<open>goto End\<close>), \<open>CopyBlock8b\<close>, the row
  advance and the tile refresh \<open>if (pos < last && (col & mask))\<close>.
\<close>

definition ad_decode_backref :: "'o ad_ctx \<Rightarrow> htree_group \<Rightarrow> nat \<Rightarrow> 'o ad_state \<Rightarrow> 'o ad_state loop_step" where
  "ad_decode_backref c grp code s =
     (let hdr = dec_hdr (ad_dec s);
          length_sym = code - NUM_LITERAL_CODES;
          (length, br) = GetCopyLength length_sym (dec_br (ad_dec s));
          (dist_symbol, br) = ReadSymbol (huffman_tables hdr) (htrees grp ! DIST) br;
          (dist_code, br) = GetCopyDistance dist_symbol br;
          dist = PlaneCodeToDistance (ac_width c) dist_code;
          s = ad_set_br s br;
          pos = ad_pos s;
          end = ac_width c * ac_height c
      in if dist \<le> pos \<and> length \<le> end - pos then
           (let s = s\<lparr>ad_data := CopyBlock8b (ac_data_addr c + pos) (ad_data s) pos dist length,
                       ad_pos := pos + length, ad_col := ad_col s + length\<rparr>;
                s = ad_advance_rows c s
            in Continue (if ad_pos s < ac_width c * ac_last_row c \<and> (int (ad_col s) AND huffman_mask hdr) \<noteq> 0
                         then s\<lparr>ad_htree_group := GetHtreeGroupForPos hdr (ad_col s) (ad_row s)\<rparr>
                         else s))
         else Fail s)"

text \<open>One pass of \<open>while (!br->eos_ && pos < last) { ... }\<close>: the tile refresh, the green
  code, then a literal \<open>data[pos] = code\<close>, a back-reference, or \<open>goto End\<close>.\<close>

definition DecodeAlphaData_body :: "'o ad_ctx \<Rightarrow> 'o ad_state \<Rightarrow> 'o ad_state loop_step" where
  "DecodeAlphaData_body c s0 =
     (let hdr = dec_hdr (ad_dec s0);
          s = (if (int (ad_col s0) AND huffman_mask hdr) = 0
               then s0\<lparr>ad_htree_group := GetHtreeGroupForPos hdr (ad_col s0) (ad_row s0)\<rparr> else s0);
          grp = htree_groups hdr ! ad_htree_group s;
          (code, br) = ReadSymbol (huffman_tables hdr) (htrees grp ! GREEN) (dec_br (ad_dec s));
          s = ad_set_br s br
      in if code < NUM_LITERAL_CODES
         then Continue (ad_advance_by_one c (s\<lparr>ad_data := (ad_data s)[ad_pos s := of_nat code]\<rparr>))
         else if code < NUM_LITERAL_CODES + NUM_LENGTH_CODES then ad_decode_backref c grp code s
         else Fail s)"

subsection \<open>Frame and progress lemmas\<close>

named_theorems ad_frame \<open>fields the pieces of the alpha loop body leave alone\<close>

lemma ad_extract_frame [simp, ad_frame]:
  "ad_pos (ad_extract c s) = ad_pos s" "ad_col (ad_extract c s) = ad_col s"
  "ad_row (ad_extract c s) = ad_row s" "ad_data (ad_extract c s) = ad_data s"
  "ad_htree_group (ad_extract c s) = ad_htree_group s"
  "dec_br (ad_dec (ad_extract c s)) = dec_br (ad_dec s)"
  "dec_hdr (ad_dec (ad_extract c s)) = dec_hdr (ad_dec s)"
  "dec_status (ad_dec (ad_extract c s)) = dec_status (ad_dec s)"
  by (simp_all add: ad_extract_def)

lemma ad_set_br_frame [simp, ad_frame]:
  "ad_pos (ad_set_br s b) = ad_pos s" "ad_col (ad_set_br s b) = ad_col s"
  "ad_row (ad_set_br s b) = ad_row s" "ad_data (ad_set_br s b) = ad_data s"
  "ad_htree_group (ad_set_br s b) = ad_htree_group s"
  "dec_br (ad_dec (ad_set_br s b)) = b"
  "dec_hdr (ad_dec (ad_set_br s b)) = dec_hdr (ad_dec s)"
  "dec_status (ad_dec (ad_set_br s b)) = dec_status (ad_dec s)"
  by (simp_all add: ad_set_br_def)

lemma ad_advance_rows_frame [simp, ad_frame]:
  "ad_pos (ad_advance_rows c s) = ad_pos s" "ad_data (ad_advance_rows c s) = ad_data s"
  "ad_htree_group (ad_advance_rows c s) = ad_htree_group s"
  "dec_br (ad_dec (ad_advance_rows c s)) = dec_br (ad_dec s)"
  "dec_hdr (ad_dec (ad_advance_rows c s)) = dec_hdr (ad_dec s)"
  "dec_status (ad_dec (ad_advance_rows c s)) = dec_status (ad_dec s)"
  by (induction c s rule: ad_advance_rows.induct, subst ad_advance_rows.simps, simp)+

lemma ad_advance_by_one_pos [simp]: "ad_pos (ad_advance_by_one c s) = Suc (ad_pos s)"
  by (simp add: ad_advance_by_one_def Let_def)

lemma DecodeAlphaData_body_advances:
  "DecodeAlphaData_body c s = Continue s' \<Longrightarrow> ad_pos s < ad_pos s'"
proof -
  have len: "GetCopyLength k br = (l, br') \<Longrightarrow> 0 < l" for k br l br'
    using GetCopyLength_pos [of k br] by simp
  assume "DecodeAlphaData_body c s = Continue s'"
  then show ?thesis
    by (auto simp: DecodeAlphaData_body_def ad_decode_backref_def Let_def split: prod.splits if_splits dest!: len)
qed

end
