(* ===== verification/AlphaDecode.thy ===== *)
theory AlphaDecode
  imports AlphaPath
begin

text \<open>
  The loop of \<open>DecodeAlphaData\<close> (vp8l.cpp, lines 884--965) and the code after it.
  The loop runs while the stream has not ended and \<open>pos < last\<close>; a pass that jumps to
  \<open>End\<close> ends it with \<open>ok = 0\<close>.  It is total: every pass that continues moves \<open>pos\<close>
  forward (\<open>DecodeAlphaData_body_advances\<close>), so \<open>last - pos\<close> decreases.
\<close>

function DecodeAlphaData_loop :: "'o ad_ctx \<Rightarrow> 'o ad_state \<Rightarrow> bool \<times> 'o ad_state" where
  "DecodeAlphaData_loop c s =
     (if \<not> br_eos (dec_br (ad_dec s)) \<and> ad_pos s < ac_width c * ac_last_row c
      then (case DecodeAlphaData_body c s of
              Continue s' \<Rightarrow> DecodeAlphaData_loop c s'
            | Break s' \<Rightarrow> (True, s')
            | Fail s' \<Rightarrow> (False, s'))
      else (True, s))"
  by pat_completeness auto
termination
  by (relation "measure (\<lambda>(c, s). ac_width c * ac_last_row c - ad_pos s)")
     (auto dest: DecodeAlphaData_body_advances)

declare DecodeAlphaData_loop.simps [simp del]

text \<open>The locals on entry: the position \<open>last_pixel_\<close> as row and column, and its group.\<close>

definition DecodeAlphaData_init :: "'o vp8l_decoder \<Rightarrow> u8 list \<Rightarrow> nat \<Rightarrow> 'o ad_state" where
  "DecodeAlphaData_init dec data width =
     (let row = dec_last_pixel dec div width;
          col = dec_last_pixel dec mod width
      in \<lparr>ad_dec = dec, ad_data = data, ad_pos = dec_last_pixel dec, ad_col = col, ad_row = row,
          ad_htree_group = GetHtreeGroupForPos (dec_hdr dec) col row\<rparr>)"

text \<open>
  \<open>DecodeAlphaData\<close>: the loop, the final \<open>ExtractPalettedAlphaRows(dec, row)\<close> unless the
  loop jumped to \<open>End\<close>, then \<open>SUSPENDED\<close> at the end of the stream before the end of
  the image, \<open>BITSTREAM_ERROR\<close> after a bad code, or \<open>last_pixel_ = pos\<close>.  The result
  is the return value, the decoder and the alpha buffer.
\<close>

definition DecodeAlphaData ::
  "('x \<Rightarrow> nat \<Rightarrow> nat \<Rightarrow> u8 list \<Rightarrow> 'x) \<Rightarrow> 'x alpha_out vp8l_decoder \<Rightarrow> u8 list \<Rightarrow> nat \<Rightarrow> nat \<Rightarrow> nat
   \<Rightarrow> nat \<Rightarrow> bool \<times> 'x alpha_out vp8l_decoder \<times> u8 list" where
  "DecodeAlphaData apply_alpha dec data width height last_row data_addr =
     (let c = \<lparr>ac_width = width, ac_height = height, ac_last_row = last_row,
               ac_extract = ExtractPalettedAlphaRows apply_alpha, ac_data_addr = data_addr\<rparr>;
          (ok, s) = DecodeAlphaData_loop c (DecodeAlphaData_init dec data width);
          dec = (if ok then (ad_dec s)\<lparr>dec_io := ExtractPalettedAlphaRows apply_alpha
                                          (dec_io (ad_dec s)) (ad_data s) (ad_row s)\<rparr>
                 else ad_dec s);
          br = dec_br dec
      in if \<not> ok \<or> (br_eos br \<and> ad_pos s < width * height)
         then (False, dec\<lparr>dec_status := (if br_eos br then VP8_STATUS_SUSPENDED
                                          else VP8_STATUS_BITSTREAM_ERROR)\<rparr>, ad_data s)
         else (True, dec\<lparr>dec_last_pixel := ad_pos s\<rparr>, ad_data s))"


text \<open>\<open>pos = row * width + col\<close> with \<open>col < width\<close>: the locals agree.\<close>

definition ad_pos_inv :: "nat \<Rightarrow> 'o ad_state \<Rightarrow> bool" where
  "ad_pos_inv w s \<longleftrightarrow> ad_pos s = ad_row s * w + ad_col s \<and> ad_col s < w"

text \<open>
  The loop with a bound on its passes: \<open>None\<close> when the bound runs out before the loop
  ends.  It counts the passes of \<open>DecodeAlphaData_loop\<close>.
\<close>

fun DecodeAlphaData_loop_fuel :: "nat \<Rightarrow> 'o ad_ctx \<Rightarrow> 'o ad_state \<Rightarrow> (bool \<times> 'o ad_state) option" where
  "DecodeAlphaData_loop_fuel 0 c s =
     (if \<not> br_eos (dec_br (ad_dec s)) \<and> ad_pos s < ac_width c * ac_last_row c then None else Some (True, s))"
| "DecodeAlphaData_loop_fuel (Suc n) c s =
     (if \<not> br_eos (dec_br (ad_dec s)) \<and> ad_pos s < ac_width c * ac_last_row c
      then (case DecodeAlphaData_body c s of
              Continue s' \<Rightarrow> DecodeAlphaData_loop_fuel n c s'
            | Break s' \<Rightarrow> Some (True, s')
            | Fail s' \<Rightarrow> Some (False, s'))
      else Some (True, s))"

text \<open>
  The decoder the witnesses run on: a 2x2 alpha plane whose green tree is the single
  code 7 (or the code 300 of no branch), with no colour cache, resumed at pixel 3.
\<close>

definition alpha_fx_hdr :: "nat \<Rightarrow> vp8l_metadata" where
  "alpha_fx_hdr code = \<lparr>color_cache_size = 0, color_cache = VP8LColorCacheInit 1,
     saved_color_cache = VP8LColorCacheInit 1, huffman_mask = -1, huffman_subsample_bits = 0,
     huffman_xsize = 2, huffman_image = [], num_htree_groups = 1,
     htree_groups = [\<lparr>htrees = [0, 1, 1, 1, 1], is_trivial_literal = True, literal_arb = 0xff000000\<rparr>],
     huffman_tables = [\<lparr>hc_bits = 0, hc_value = code\<rparr>, \<lparr>hc_bits = 0, hc_value = 0\<rparr>]\<rparr>"

definition alpha_fx_dec :: "nat \<Rightarrow> unit alpha_out vp8l_decoder" where
  "alpha_fx_dec code = \<lparr>dec_status = VP8_STATUS_OK, dec_state = READ_DATA, dec_next_transform = 0,
     dec_transforms_seen = 0, dec_transforms = [], dec_br = VP8LInitBitReader [0, 0, 0, 0, 0, 0, 0, 0],
     dec_saved_br = VP8LInitBitReader [0, 0, 0, 0, 0, 0, 0, 0], dec_last_pixel = 3,
     dec_saved_last_pixel = 0, dec_incremental = False, dec_width = 2, dec_height = 2,
     dec_hdr = alpha_fx_hdr code, dec_io = \<lparr>ao_last_row = 0, ao_last_out_row = 0, ao_out = ()\<rparr>\<rparr>"

subsection \<open>The loop, one pass at a time\<close>

lemma DecodeAlphaData_loop_step:
  "br_eos (dec_br (ad_dec s)) \<Longrightarrow> DecodeAlphaData_loop c s = (True, s)"
  "\<not> ad_pos s < ac_width c * ac_last_row c \<Longrightarrow> DecodeAlphaData_loop c s = (True, s)"
  "\<not> br_eos (dec_br (ad_dec s)) \<Longrightarrow> ad_pos s < ac_width c * ac_last_row c \<Longrightarrow> DecodeAlphaData_body c s = Continue s'
   \<Longrightarrow> DecodeAlphaData_loop c s = DecodeAlphaData_loop c s'"
  "\<not> br_eos (dec_br (ad_dec s)) \<Longrightarrow> ad_pos s < ac_width c * ac_last_row c \<Longrightarrow> DecodeAlphaData_body c s = Fail s'
   \<Longrightarrow> DecodeAlphaData_loop c s = (False, s')"
  by (simp_all add: DecodeAlphaData_loop.simps [of c s])

lemma DecodeAlphaData_body_no_break: "DecodeAlphaData_body c s \<noteq> Break s'"
  by (auto simp: DecodeAlphaData_body_def ad_decode_backref_def Let_def split: prod.splits)

text \<open>Induction over a run of the loop: a property kept by every pass that continues
  holds of the result, whether the loop stops by its condition or by \<open>goto End\<close>.\<close>

lemma DecodeAlphaData_loop_rule:
  assumes "DecodeAlphaData_loop c s = (ok, s')" "P s"
    and cont: "\<And>s s1. P s \<Longrightarrow> \<not> br_eos (dec_br (ad_dec s)) \<Longrightarrow> ad_pos s < ac_width c * ac_last_row c
                 \<Longrightarrow> DecodeAlphaData_body c s = Continue s1 \<Longrightarrow> P s1"
    and fail: "\<And>s s1. P s \<Longrightarrow> \<not> br_eos (dec_br (ad_dec s)) \<Longrightarrow> ad_pos s < ac_width c * ac_last_row c
                 \<Longrightarrow> DecodeAlphaData_body c s = Fail s1 \<Longrightarrow> Q False s1"
    and stop: "\<And>s. P s \<Longrightarrow> \<not> (\<not> br_eos (dec_br (ad_dec s)) \<and> ad_pos s < ac_width c * ac_last_row c) \<Longrightarrow> Q True s"
  shows "Q ok s'"
  using assms
proof (induction c s rule: DecodeAlphaData_loop.induct)
  case (1 c' s)
  note cont = "1.prems"(3) and fail = "1.prems"(4) and stop = "1.prems"(5)
  show ?case
  proof (cases "\<not> br_eos (dec_br (ad_dec s)) \<and> ad_pos s < ac_width c' * ac_last_row c'")
    case False
    then have "ok = True" "s' = s"
      using "1.prems"(1) DecodeAlphaData_loop_step(1,2) [of s c'] by auto
    then show ?thesis using False stop "1.prems" by auto
  next
    case True
    show ?thesis
    proof (cases "DecodeAlphaData_body c' s")
      case (Continue x)
      then show ?thesis
        using "1.IH" [OF True Continue _ _ cont fail stop] "1.prems"(1,2) True DecodeAlphaData_loop_step(3) [of s c'] cont
        by auto
    next
      case (Break x)
      then show ?thesis using DecodeAlphaData_body_no_break by blast
    next
      case (Fail x)
      then show ?thesis
        using "1.prems" True DecodeAlphaData_loop_step(4) [of s c'] fail by auto
    qed
  qed
qed

lemma DecodeAlphaData_loop_exit:
  "DecodeAlphaData_loop c s = (True, s') \<Longrightarrow> br_eos (dec_br (ad_dec s')) \<or> ac_width c * ac_last_row c \<le> ad_pos s'"
proof -
  assume run: "DecodeAlphaData_loop c s = (True, s')"
  have "True \<longrightarrow> br_eos (dec_br (ad_dec s')) \<or> ac_width c * ac_last_row c \<le> ad_pos s'"
    by (rule DecodeAlphaData_loop_rule [where P = "\<lambda>_. True"
          and Q = "\<lambda>ok t. ok \<longrightarrow> br_eos (dec_br (ad_dec t)) \<or> ac_width c * ac_last_row c \<le> ad_pos t", OF run])
       auto
  then show ?thesis by simp
qed

named_theorems ad_step_frame \<open>decoder fields a pass of the alpha loop leaves alone\<close>

lemma ad_advance_rows_last_pixel:
  "dec_last_pixel (ad_dec (ad_advance_rows c s)) = dec_last_pixel (ad_dec s)"
  by (induction c s rule: ad_advance_rows.induct, subst ad_advance_rows.simps) (simp add: ad_extract_def)

lemma ad_pieces_last_pixel [ad_step_frame]:
  "dec_last_pixel (ad_dec (ad_extract c s)) = dec_last_pixel (ad_dec s)"
  "dec_last_pixel (ad_dec (ad_set_br s b)) = dec_last_pixel (ad_dec s)"
  "dec_last_pixel (ad_dec (ad_advance_by_one c s)) = dec_last_pixel (ad_dec s)"
  "dec_last_pixel (ad_dec (ad_advance_rows c s)) = dec_last_pixel (ad_dec s)"
  by (simp_all add: ad_extract_def ad_set_br_def ad_advance_by_one_def Let_def ad_advance_rows_last_pixel)

lemma ad_decode_backref_last_pixel:
  "ad_decode_backref c g code s = Continue s' \<or> ad_decode_backref c g code s = Fail s'
   \<Longrightarrow> dec_last_pixel (ad_dec s') = dec_last_pixel (ad_dec s)"
  unfolding ad_decode_backref_def Let_def
  by (auto simp: ad_step_frame split: prod.splits if_splits)

lemma DecodeAlphaData_body_last_pixel:
  "DecodeAlphaData_body c s = Continue s' \<or> DecodeAlphaData_body c s = Fail s'
   \<Longrightarrow> dec_last_pixel (ad_dec s') = dec_last_pixel (ad_dec s)"
  unfolding DecodeAlphaData_body_def Let_def
  by (auto simp: ad_step_frame split: prod.splits if_splits dest!: ad_decode_backref_last_pixel)

lemma DecodeAlphaData_loop_last_pixel:
  "DecodeAlphaData_loop c s = (ok, s') \<Longrightarrow> dec_last_pixel (ad_dec s') = dec_last_pixel (ad_dec s)"
  by (erule DecodeAlphaData_loop_rule [where P = "\<lambda>t. dec_last_pixel (ad_dec t) = dec_last_pixel (ad_dec s)"])
     (metis DecodeAlphaData_body_last_pixel)+


subsection \<open>Positions\<close>

lemma ad_pos_inv_frame [simp]:
  "ad_pos_inv w (s\<lparr>ad_htree_group := g\<rparr>) = ad_pos_inv w s"
  "ad_pos_inv w (s\<lparr>ad_data := d\<rparr>) = ad_pos_inv w s"
  "ad_pos_inv w (ad_set_br s b) = ad_pos_inv w s"
  by (simp_all add: ad_pos_inv_def)

lemma ad_advance_rows_pos:
  "0 < ac_width c \<Longrightarrow>
   ad_row (ad_advance_rows c s) * ac_width c + ad_col (ad_advance_rows c s) = ad_row s * ac_width c + ad_col s
   \<and> ad_col (ad_advance_rows c s) < ac_width c"
proof (induction c s rule: ad_advance_rows.induct)
  case (1 c s)
  show ?case
  proof (cases "ac_width c \<le> ad_col s")
    case True
    then show ?thesis
      using "1.IH" "1.prems" by (subst (1 2 3) ad_advance_rows.simps) (simp add: ad_extract_def)
  next
    case False
    then show ?thesis by (subst (1 2 3) ad_advance_rows.simps) simp
  qed
qed

lemma ad_pos_inv_advance_by_one:
  "ad_pos_inv (ac_width c) s \<Longrightarrow> ad_pos_inv (ac_width c) (ad_advance_by_one c s)"
  by (auto simp: ad_pos_inv_def ad_advance_by_one_def ad_extract_def Let_def)

lemma ad_pos_inv_backref:
  assumes "ad_decode_backref c g code s = r" "r = Continue s' \<or> r = Fail s'"
    and "0 < ac_width c" "ad_pos_inv (ac_width c) s"
  shows "ad_pos_inv (ac_width c) s'"
proof -
  have "ad_pos_inv (ac_width c)
          (ad_advance_rows c ((ad_set_br t b)\<lparr>ad_data := d, ad_pos := ad_pos t + l, ad_col := ad_col t + l\<rparr>))"
    if "ad_pos_inv (ac_width c) t" for t :: "'a ad_state" and b d l
    using that ad_advance_rows_pos [OF assms(3),
        of "(ad_set_br t b)\<lparr>ad_data := d, ad_pos := ad_pos t + l, ad_col := ad_col t + l\<rparr>"]
    by (simp add: ad_pos_inv_def)
  then show ?thesis
    using assms(1,2,4) unfolding ad_decode_backref_def Let_def
    by (auto split: prod.splits if_splits)
qed

lemma ad_pos_inv_body:
  assumes "0 < ac_width c" "ad_pos_inv (ac_width c) s"
    and "DecodeAlphaData_body c s = Continue s' \<or> DecodeAlphaData_body c s = Fail s'"
  shows "ad_pos_inv (ac_width c) s'"
  using assms unfolding DecodeAlphaData_body_def Let_def
  by (auto split: prod.splits if_splits intro: ad_pos_inv_advance_by_one dest: ad_pos_inv_backref)

lemma DecodeAlphaData_loop_pos_inv:
  assumes "ac_width c = w" "0 < w" "ad_pos_inv w s" "DecodeAlphaData_loop c s = (ok, s')"
  shows "ad_pos_inv w s'"
  using assms(4,3) unfolding assms(1) [symmetric]
  by (rule DecodeAlphaData_loop_rule [where P = "ad_pos_inv (ac_width c)"])
     (use assms(1,2) in \<open>metis ad_pos_inv_body\<close>)+

lemma DecodeAlphaData_init_pos_inv: "0 < w \<Longrightarrow> ad_pos_inv w (DecodeAlphaData_init dec data w)"
  by (simp add: ad_pos_inv_def DecodeAlphaData_init_def Let_def)


subsection \<open>The result of \<open>DecodeAlphaData\<close>\<close>

lemma DecodeAlphaData_cases:
  assumes "DecodeAlphaData apply_alpha dec data width height last_row data_addr = (r, dec', data')"
  obtains ok s where
    "DecodeAlphaData_loop \<lparr>ac_width = width, ac_height = height, ac_last_row = last_row,
        ac_extract = ExtractPalettedAlphaRows apply_alpha, ac_data_addr = data_addr\<rparr>
        (DecodeAlphaData_init dec data width) = (ok, s)"
    "data' = ad_data s"
    "r \<Longrightarrow> ok \<and> \<not> (br_eos (dec_br (ad_dec s)) \<and> ad_pos s < width * height)
        \<and> dec' = (ad_dec s)\<lparr>dec_io := ExtractPalettedAlphaRows apply_alpha (dec_io (ad_dec s)) (ad_data s) (ad_row s),
                            dec_last_pixel := ad_pos s\<rparr>"
    "\<not> r \<Longrightarrow> dec_last_pixel dec' = dec_last_pixel (ad_dec s) \<and> dec_br dec' = dec_br (ad_dec s)
        \<and> dec_status dec' = (if br_eos (dec_br dec') then VP8_STATUS_SUSPENDED else VP8_STATUS_BITSTREAM_ERROR)"
proof -
  obtain ok s where run: "DecodeAlphaData_loop \<lparr>ac_width = width, ac_height = height, ac_last_row = last_row,
        ac_extract = ExtractPalettedAlphaRows apply_alpha, ac_data_addr = data_addr\<rparr>
        (DecodeAlphaData_init dec data width) = (ok, s)"
    by fastforce
  show thesis
    using assms by (intro that [OF run]) (auto simp: DecodeAlphaData_def run Let_def split: if_splits)
qed


lemma DecodeAlphaData_body_fx:
  "\<exists>s1. DecodeAlphaData_body \<lparr>ac_width = 2, ac_height = 2, ac_last_row = 2,
        ac_extract = ExtractPalettedAlphaRows (\<lambda>x r n d. x), ac_data_addr = 0\<rparr>
        (DecodeAlphaData_init (alpha_fx_dec 7) [0, 0, 0, 0] 2) = Continue s1
    \<and> ad_pos s1 = 4 \<and> ad_row s1 = 2 \<and> \<not> br_eos (dec_br (ad_dec s1)) \<and> ad_data s1 = [0, 0, 0, 7]"
  "\<exists>s1. DecodeAlphaData_body \<lparr>ac_width = 2, ac_height = 2, ac_last_row = 2,
        ac_extract = ExtractPalettedAlphaRows (\<lambda>x r n d. x), ac_data_addr = 0\<rparr>
        (DecodeAlphaData_init (alpha_fx_dec 300) [0, 0, 0, 0] 2) = Fail s1
    \<and> ad_dec s1 = alpha_fx_dec 300"
  by (simp_all add: DecodeAlphaData_body_def DecodeAlphaData_init_def alpha_fx_dec_def alpha_fx_hdr_def Let_def
      ReadSymbol_def VP8LPrefetchBits_zero VP8LInitBitReader_def ad_set_br_def VP8LSetBitPos_def
      VP8LIsEndOfStream_def HUFFMAN_TABLE_BITS_def HUFFMAN_TABLE_MASK_def GetHtreeGroupForPos_def
      GetMetaIndex_def GREEN_def ad_advance_by_one_def ad_extract_def NUM_ARGB_CACHE_ROWS_def)

lemma DecodeAlphaData_fx:
  "\<exists>dec' data'. DecodeAlphaData (\<lambda>x r n d. x) (alpha_fx_dec 7) [0, 0, 0, 0] 2 2 2 0 = (True, dec', data')"
  "\<exists>dec' data'. DecodeAlphaData (\<lambda>x r n d. x) (alpha_fx_dec 300) [0, 0, 0, 0] 2 2 2 0 = (False, dec', data')"
proof -
  let ?c = "\<lparr>ac_width = 2, ac_height = 2, ac_last_row = 2,
              ac_extract = ExtractPalettedAlphaRows (\<lambda>x r n d. x :: unit), ac_data_addr = 0\<rparr>"
  have i: "ad_pos (DecodeAlphaData_init (alpha_fx_dec code) [0, 0, 0, 0] 2) = 3"
    "\<not> br_eos (dec_br (ad_dec (DecodeAlphaData_init (alpha_fx_dec code) [0, 0, 0, 0] 2)))" for code
    by (simp_all add: DecodeAlphaData_init_def alpha_fx_dec_def VP8LInitBitReader_def)
  obtain s1 where s1: "DecodeAlphaData_body ?c (DecodeAlphaData_init (alpha_fx_dec 7) [0, 0, 0, 0] 2) = Continue s1"
    "ad_pos s1 = 4" "\<not> br_eos (dec_br (ad_dec s1))"
    using DecodeAlphaData_body_fx(1) by blast
  have "DecodeAlphaData_loop ?c (DecodeAlphaData_init (alpha_fx_dec 7) [0, 0, 0, 0] 2) = (True, s1)"
    using DecodeAlphaData_loop_step(3) [OF i(2) _ s1(1)] DecodeAlphaData_loop_step(2) [of s1 ?c] i(1) s1(2)
    by simp
  then show "\<exists>dec' data'. DecodeAlphaData (\<lambda>x r n d. x) (alpha_fx_dec 7) [0, 0, 0, 0] 2 2 2 0 = (True, dec', data')"
    using s1 by (simp add: DecodeAlphaData_def Let_def)
  obtain s2 where s2: "DecodeAlphaData_body ?c (DecodeAlphaData_init (alpha_fx_dec 300) [0, 0, 0, 0] 2) = Fail s2"
    using DecodeAlphaData_body_fx(2) by blast
  have "DecodeAlphaData_loop ?c (DecodeAlphaData_init (alpha_fx_dec 300) [0, 0, 0, 0] 2) = (False, s2)"
    using DecodeAlphaData_loop_step(4) [OF i(2) _ s2] i(1) by simp
  then show "\<exists>dec' data'. DecodeAlphaData (\<lambda>x r n d. x) (alpha_fx_dec 300) [0, 0, 0, 0] 2 2 2 0 = (False, dec', data')"
    by (simp add: DecodeAlphaData_def Let_def)
qed


subsection \<open>Properties\<close>

text \<open>
  C28. \<open>DecodeAlphaData\<close> returns success only when it has decoded every pixel up to
  \<open>last_row\<close>: the loop leaves early only at the end of the stream, and then the whole
  plane must be decoded.
\<close>

theorem DecodeAlphaData_complete:
  assumes "DecodeAlphaData apply_alpha dec data width height last_row data_addr = (True, dec', data')"
    and "last_row \<le> height"
  shows "width * last_row \<le> dec_last_pixel dec'"
proof -
  obtain ok s where run: "DecodeAlphaData_loop \<lparr>ac_width = width, ac_height = height, ac_last_row = last_row,
        ac_extract = ExtractPalettedAlphaRows apply_alpha, ac_data_addr = data_addr\<rparr>
        (DecodeAlphaData_init dec data width) = (ok, s)"
    and res: "ok" "\<not> (br_eos (dec_br (ad_dec s)) \<and> ad_pos s < width * height)" "dec_last_pixel dec' = ad_pos s"
    by (rule DecodeAlphaData_cases [OF assms(1)]) auto
  have ex: "br_eos (dec_br (ad_dec s)) \<or> width * last_row \<le> ad_pos s"
    using DecodeAlphaData_loop_exit [of _ _ s] run res(1) by fastforce
  have m: "width * last_row \<le> width * height"
    using assms(2) by (rule mult_le_mono2)
  show ?thesis
    using ex m res(2,3) by (metis le_trans not_less)
qed

theorem DecodeAlphaData_complete_witness:
  "2 \<le> (2::nat) \<and> 2 * 2 \<le> dec_last_pixel (fst (snd (DecodeAlphaData (\<lambda>x r n d. x) (alpha_fx_dec 7) [0, 0, 0, 0] 2 2 2 0)))"
proof -
  obtain dec' data' where r: "DecodeAlphaData (\<lambda>x r n d. x) (alpha_fx_dec 7) [0, 0, 0, 0] 2 2 2 0 = (True, dec', data')"
    using DecodeAlphaData_fx(1) by blast
  show ?thesis
    using DecodeAlphaData_complete [OF r] r by simp
qed

text \<open>
  C29. When \<open>DecodeAlphaData\<close> fails, the resume position \<open>last_pixel_\<close> is the one it
  started from, and the status says why: \<open>SUSPENDED\<close> when the stream ran out,
  \<open>BITSTREAM_ERROR\<close> after a bad code or an out-of-range back-reference.
\<close>

theorem DecodeAlphaData_error:
  assumes "DecodeAlphaData apply_alpha dec data width height last_row data_addr = (False, dec', data')"
  shows "dec_last_pixel dec' = dec_last_pixel dec
         \<and> dec_status dec' = (if br_eos (dec_br dec') then VP8_STATUS_SUSPENDED else VP8_STATUS_BITSTREAM_ERROR)"
proof -
  obtain ok s where run: "DecodeAlphaData_loop \<lparr>ac_width = width, ac_height = height, ac_last_row = last_row,
        ac_extract = ExtractPalettedAlphaRows apply_alpha, ac_data_addr = data_addr\<rparr>
        (DecodeAlphaData_init dec data width) = (ok, s)"
    and res: "dec_last_pixel dec' = dec_last_pixel (ad_dec s)"
      "dec_status dec' = (if br_eos (dec_br dec') then VP8_STATUS_SUSPENDED else VP8_STATUS_BITSTREAM_ERROR)"
    by (rule DecodeAlphaData_cases [OF assms]) auto
  have "dec_last_pixel (ad_dec s) = dec_last_pixel dec"
    using DecodeAlphaData_loop_last_pixel [OF run] by (simp add: DecodeAlphaData_init_def Let_def)
  then show ?thesis
    using res by simp
qed

theorem DecodeAlphaData_error_witness:
  "dec_last_pixel (fst (snd (DecodeAlphaData (\<lambda>x r n d. x) (alpha_fx_dec 300) [0, 0, 0, 0] 2 2 2 0))) = 3
   \<and> dec_status (fst (snd (DecodeAlphaData (\<lambda>x r n d. x) (alpha_fx_dec 300) [0, 0, 0, 0] 2 2 2 0)))
     = (if br_eos (dec_br (fst (snd (DecodeAlphaData (\<lambda>x r n d. x) (alpha_fx_dec 300) [0, 0, 0, 0] 2 2 2 0))))
        then VP8_STATUS_SUSPENDED else VP8_STATUS_BITSTREAM_ERROR)"
proof -
  obtain dec' data' where r: "DecodeAlphaData (\<lambda>x r n d. x) (alpha_fx_dec 300) [0, 0, 0, 0] 2 2 2 0 = (False, dec', data')"
    using DecodeAlphaData_fx(2) by blast
  show ?thesis
    using DecodeAlphaData_error [OF r] r by (simp add: alpha_fx_dec_def)
qed

text \<open>
  C30. After a successful \<open>DecodeAlphaData\<close> the row watermarks \<open>last_row_\<close> and
  \<open>last_out_row_\<close> of the alpha output are the row of \<open>last_pixel_\<close>: every complete
  row decoded was handed to \<open>ExtractPalettedAlphaRows\<close>, and no row beyond.
\<close>

theorem DecodeAlphaData_rows_extracted:
  assumes "0 < width"
    and "DecodeAlphaData apply_alpha dec data width height last_row data_addr = (True, dec', data')"
  shows "ao_last_row (dec_io dec') = dec_last_pixel dec' div width
         \<and> ao_last_out_row (dec_io dec') = dec_last_pixel dec' div width"
proof -
  obtain ok s where run: "DecodeAlphaData_loop \<lparr>ac_width = width, ac_height = height, ac_last_row = last_row,
        ac_extract = ExtractPalettedAlphaRows apply_alpha, ac_data_addr = data_addr\<rparr>
        (DecodeAlphaData_init dec data width) = (ok, s)"
    and res: "dec' = (ad_dec s)\<lparr>dec_io := ExtractPalettedAlphaRows apply_alpha (dec_io (ad_dec s)) (ad_data s) (ad_row s),
                                dec_last_pixel := ad_pos s\<rparr>"
    by (rule DecodeAlphaData_cases [OF assms(2)]) auto
  have "ad_pos_inv width s"
    using DecodeAlphaData_loop_pos_inv [OF _ assms(1) DecodeAlphaData_init_pos_inv [OF assms(1)] run] by simp
  then have "ad_pos s div width = ad_row s"
    using assms(1) by (simp add: ad_pos_inv_def)
  then show ?thesis
    using res by (simp add: ExtractPalettedAlphaRows_def)
qed

theorem DecodeAlphaData_rows_extracted_witness:
  "0 < (2::nat)
   \<and> ao_last_row (dec_io (fst (snd (DecodeAlphaData (\<lambda>x r n d. x) (alpha_fx_dec 7) [0, 0, 0, 0] 2 2 2 0))))
     = dec_last_pixel (fst (snd (DecodeAlphaData (\<lambda>x r n d. x) (alpha_fx_dec 7) [0, 0, 0, 0] 2 2 2 0))) div 2"
proof -
  obtain dec' data' where r: "DecodeAlphaData (\<lambda>x r n d. x) (alpha_fx_dec 7) [0, 0, 0, 0] 2 2 2 0 = (True, dec', data')"
    using DecodeAlphaData_fx(1) by blast
  show ?thesis
    using DecodeAlphaData_rows_extracted [OF _ r] r by simp
qed

text \<open>
  C31. The loop of \<open>DecodeAlphaData\<close> makes at most \<open>last - pos\<close> passes: with that many
  passes allowed, the bounded loop returns the loop's result.
\<close>

theorem DecodeAlphaData_loop_passes:
  "ac_width c * ac_last_row c \<le> ad_pos s + n \<Longrightarrow> DecodeAlphaData_loop_fuel n c s = Some (DecodeAlphaData_loop c s)"
proof (induction n arbitrary: s)
  case 0
  then show ?case by (simp add: DecodeAlphaData_loop_step(2))
next
  case (Suc n)
  show ?case
  proof (cases "\<not> br_eos (dec_br (ad_dec s)) \<and> ad_pos s < ac_width c * ac_last_row c")
    case False
    then show ?thesis by (auto simp: DecodeAlphaData_loop_step(1,2))
  next
    case True
    show ?thesis
    proof (cases "DecodeAlphaData_body c s")
      case (Continue s')
      then have "ac_width c * ac_last_row c \<le> ad_pos s' + n"
        using Suc.prems DecodeAlphaData_body_advances [OF Continue] by simp
      then show ?thesis
        using Suc.IH True Continue DecodeAlphaData_loop_step(3) [of s c] by simp
    next
      case (Break s')
      then show ?thesis using DecodeAlphaData_body_no_break by blast
    next
      case (Fail s')
      then show ?thesis using True DecodeAlphaData_loop_step(4) [of s c] by simp
    qed
  qed
qed

theorem DecodeAlphaData_loop_passes_witness:
  "2 * 2 \<le> ad_pos (DecodeAlphaData_init (alpha_fx_dec 7) [0, 0, 0, 0] 2) + 1
   \<and> DecodeAlphaData_loop_fuel 1 \<lparr>ac_width = 2, ac_height = 2, ac_last_row = 2,
        ac_extract = ExtractPalettedAlphaRows (\<lambda>x r n d. x :: unit), ac_data_addr = 0\<rparr>
        (DecodeAlphaData_init (alpha_fx_dec 7) [0, 0, 0, 0] 2)
     = Some (DecodeAlphaData_loop \<lparr>ac_width = 2, ac_height = 2, ac_last_row = 2,
        ac_extract = ExtractPalettedAlphaRows (\<lambda>x r n d. x), ac_data_addr = 0\<rparr>
        (DecodeAlphaData_init (alpha_fx_dec 7) [0, 0, 0, 0] 2))"
proof -
  have h: "2 * 2 \<le> ad_pos (DecodeAlphaData_init (alpha_fx_dec 7) [0, 0, 0, 0] 2) + (1::nat)"
    by (simp add: DecodeAlphaData_init_def alpha_fx_dec_def)
  show ?thesis
    using DecodeAlphaData_loop_passes [of "\<lparr>ac_width = 2, ac_height = 2, ac_last_row = 2,
        ac_extract = ExtractPalettedAlphaRows (\<lambda>x r n d. x :: unit), ac_data_addr = 0\<rparr>"
        "DecodeAlphaData_init (alpha_fx_dec 7) [0, 0, 0, 0] 2" 1] h
    by simp
qed

end
