(* ===== verification/AlphaRefine.thy ===== *)
theory AlphaRefine
  imports AlphaDecode DecodeProps
begin

text \<open>
  The 8-bit alpha path refines the 32-bit path.  \<open>DecodeAlphaData\<close> (vp8l.cpp, lines
  884--965) is the specialisation of \<open>DecodeImageData\<close> (lines 987--1116) that
  \<open>VP8LDecodeAlphaHeader\<close> selects when \<open>Is8bOptimizable\<close> holds: no colour cache and
  red, blue and alpha trees of a single symbol.  It keeps one byte per pixel, the green
  code.  The relation \<open>alpha_rel\<close> ties an 8-bit state to a 32-bit state: the same
  bit reader, tables and position, the same group while the loop runs, and an alpha
  buffer that is the green channel (\<open>green\<close>) of the pixel buffer.  One pass of each
  loop keeps the relation (\<open>alpha_pass_sim\<close>, through \<open>step_sim\<close>); by induction over
  the 32-bit run, so do the two loops (C27).
\<close>

text \<open>The green channel of an ARGB pixel, \<open>(argb >> 8) & 0xff\<close>.\<close>

definition green :: "u32 \<Rightarrow> u8" where
  "green p = pbyte p 1"

text \<open>The two loops run on the same raster.\<close>

definition alpha_ctx_rel :: "'o ad_ctx \<Rightarrow> 'p dd_ctx \<Rightarrow> bool" where
  "alpha_ctx_rel ac c \<longleftrightarrow> ac_width ac = ctx_width c \<and> ac_height ac = ctx_height c
     \<and> ac_last_row ac = ctx_last_row c \<and> 0 < ctx_width c"

text \<open>The 32-bit header as \<open>Is8bOptimizable\<close> and \<open>ReadHuffmanCodes\<close> leave it: no cache,
  trivial literals whose fixed part has no green byte, and tile lookups inside the groups.\<close>

definition alpha_hdr_ok :: "vp8l_metadata \<Rightarrow> bool" where
  "alpha_hdr_ok hdr \<longleftrightarrow> color_cache_size hdr = 0
     \<and> list_all (\<lambda>g. is_trivial_literal g \<and> green (literal_arb g) = 0) (htree_groups hdr)
     \<and> (\<forall>x y. GetHtreeGroupForPos hdr x y < length (htree_groups hdr))"

text \<open>The abstraction relation between an 8-bit and a 32-bit loop state.\<close>

definition alpha_rel :: "'o ad_ctx \<Rightarrow> 'p dd_ctx \<Rightarrow> 'o ad_state \<Rightarrow> 'p dd_state \<Rightarrow> bool" where
  "alpha_rel ac c a s \<longleftrightarrow>
     dec_br (ad_dec a) = dec_br (dd_dec s) \<and> same_tables (dec_hdr (ad_dec a)) (dec_hdr (dd_dec s))
     \<and> ad_pos a = dd_src s \<and> ad_col a = dd_col s \<and> ad_row a = dd_row s
     \<and> ad_htree_group a < length (htree_groups (dec_hdr (ad_dec a)))
     \<and> (ad_pos a < ac_width ac * ac_last_row ac \<longrightarrow> ad_htree_group a = dd_htree_group s)
     \<and> length (dd_data s) = ctx_width c * ctx_height c \<and> ad_data a = map green (dd_data s)"

text \<open>A pass of the 8-bit loop matches a pass of the 32-bit loop: it continues in a related
  state, or fails as well; when the 32-bit pass stops at the end of the stream it is
  not constrained.\<close>

fun step_sim :: "('a \<Rightarrow> 'b \<Rightarrow> bool) \<Rightarrow> 'b loop_step \<Rightarrow> 'a loop_step \<Rightarrow> bool" where
  "step_sim R (Continue s) (Continue a) = R a s"
| "step_sim R (Fail s) (Fail a) = True"
| "step_sim R (Break s) r = True"
| "step_sim R _ _ = False"

text \<open>The 32-bit fixture of \<open>DecodeProps\<close> resumed at its last pixel, and its 8-bit twin.\<close>

definition fx_actx :: "unit ad_ctx" where
  "fx_actx = \<lparr>ac_width = 2, ac_height = 2, ac_last_row = 2, ac_extract = (\<lambda>x d r. x), ac_data_addr = 0\<rparr>"

definition fx_rstate :: "unit dd_state" where
  "fx_rstate = fx_state\<lparr>dd_src := 3, dd_col := 1, dd_row := 1, dd_last_cached := 3\<rparr>"

definition fx_astate :: "unit ad_state" where
  "fx_astate = \<lparr>ad_dec = dd_dec fx_state, ad_data = [0, 0, 0, 0], ad_pos = 3, ad_col = 1, ad_row = 1,
     ad_htree_group = 0\<rparr>"

lemmas fx_alpha_defs = fx_defs fx_rstate_def fx_astate_def fx_actx_def

subsection \<open>One pass\<close>

lemma green_literal:
  assumes "green arb = 0" "code < 256"
  shows "green (arb OR push_bit 8 (of_nat code)) = of_nat code"
proof (rule bit_word_eqI)
  fix n assume n: "n < LENGTH(8)"
  have "\<not> bit (green arb) n" using assms(1) by simp
  then show "bit (green (arb OR push_bit 8 (of_nat code))) n = bit (of_nat code :: u8) n"
    using n by (auto simp: green_def pbyte_def bit_simps)
qed

lemma map_copy_fwd:
  "s \<le> d \<Longrightarrow> d + n \<le> length mem \<Longrightarrow> map f (copy_fwd mem d s n) = copy_fwd (map f mem) d s n"
proof (induction n arbitrary: mem d s)
  case 0 then show ?case by simp
next
  case (Suc n)
  then show ?case by (simp add: map_update)
qed


lemma advance_rows_alpha:
  assumes "ac_width ac = ctx_width c" "ad_col a = dd_col s" "ad_row a = dd_row s"
  shows "ad_col (ad_advance_rows ac a) = dd_col (advance_rows c s)
         \<and> ad_row (ad_advance_rows ac a) = dd_row (advance_rows c s)"
  using assms
proof (induction c s arbitrary: a rule: advance_rows.induct)
  case (1 c s)
  show ?case
  proof (cases "0 < ctx_width c \<and> ctx_width c \<le> dd_col s")
    case True
    have "ad_col (ad_advance_rows ac (ad_extract ac (a\<lparr>ad_col := ad_col a - ac_width ac, ad_row := Suc (ad_row a)\<rparr>)))
          = dd_col (advance_rows c (call_process c (s\<lparr>dd_col := dd_col s - ctx_width c, dd_row := Suc (dd_row s)\<rparr>)))
          \<and> ad_row (ad_advance_rows ac (ad_extract ac (a\<lparr>ad_col := ad_col a - ac_width ac, ad_row := Suc (ad_row a)\<rparr>)))
          = dd_row (advance_rows c (call_process c (s\<lparr>dd_col := dd_col s - ctx_width c, dd_row := Suc (dd_row s)\<rparr>)))"
      using True "1.prems" by (intro "1.IH") simp_all
    then show ?thesis
      using True "1.prems" by (simp add: advance_rows.simps [of c s] ad_advance_rows.simps [of ac a])
  next
    case False
    then have "advance_rows c s = s" "ad_advance_rows ac a = a"
      using "1.prems" by (auto simp: advance_rows.simps [of c s] ad_advance_rows.simps [of ac a])
    then show ?thesis
      using "1.prems" by simp
  qed
qed

lemma alpha_rel_advance_by_one:
  assumes "alpha_ctx_rel ac c" "alpha_rel ac c a s" "\<not> cache_on s"
  shows "alpha_rel ac c (ad_advance_by_one ac a) (advance_by_one c s)"
  using assms
  by (auto simp: alpha_rel_def alpha_ctx_rel_def advance_by_one_def ad_advance_by_one_def Let_def)


lemma alpha_rel_refresh:
  assumes "alpha_rel ac c a s" and G: "\<forall>x y. G x y < length (htree_groups (dec_hdr (ad_dec a)))"
    and "(int (ad_col a) AND m) = (int (dd_col s) AND m)"
  shows "alpha_rel ac c
           (if ad_pos a < ac_width ac * ac_last_row ac \<and> (int (ad_col a) AND m) \<noteq> 0
            then a\<lparr>ad_htree_group := G (ad_col a) (ad_row a)\<rparr> else a)
           (if (int (dd_col s) AND m) \<noteq> 0 then s\<lparr>dd_htree_group := G (dd_col s) (dd_row s)\<rparr> else s)"
  using assms by (auto simp: alpha_rel_def)

lemma alpha_rel_copy:
  assumes ctx: "alpha_ctx_rel ac c" and rel: "alpha_rel ac c a s" and run: "dd_src s < ctx_width c * ctx_last_row c"
    and ok: "0 < dist" "dist \<le> dd_src s" "0 < len" "\<not> ctx_width c * ctx_height c - dd_src s < len"
  shows "alpha_rel ac c
           (ad_advance_rows ac ((ad_set_br a br)\<lparr>ad_data := CopyBlock8b addr8 (ad_data a) (ad_pos a) dist len,
                                  ad_pos := ad_pos a + len, ad_col := ad_col a + len\<rparr>))
           (advance_rows c ((set_br s br)\<lparr>dd_data := CopyBlock32b addr32 (dd_data s) (dd_src s) dist len,
                                  dd_src := dd_src s + len, dd_col := dd_col s + len\<rparr>))"
proof -
  have fit: "dd_src s + len \<le> length (dd_data s)"
    using rel ok by (simp add: alpha_rel_def)
  have c32: "CopyBlock32b addr32 (dd_data s) (dd_src s) dist len = copy_fwd (dd_data s) (dd_src s) (dd_src s - dist) len"
    using ok fit by (simp add: CopyBlock32b_copy_fwd)
  have c8: "CopyBlock8b addr8 (ad_data a) (ad_pos a) dist len
            = map green (copy_fwd (dd_data s) (dd_src s) (dd_src s - dist) len)"
    using ok fit rel by (simp add: alpha_rel_def CopyBlock8b_copy_fwd map_copy_fwd)
  have pos: "ad_col (ad_advance_rows ac ((ad_set_br a br)\<lparr>ad_data := x, ad_pos := p, ad_col := ad_col a + len\<rparr>))
               = dd_col (advance_rows c ((set_br s br)\<lparr>dd_data := y, dd_src := q, dd_col := dd_col s + len\<rparr>))
             \<and> ad_row (ad_advance_rows ac ((ad_set_br a br)\<lparr>ad_data := x, ad_pos := p, ad_col := ad_col a + len\<rparr>))
               = dd_row (advance_rows c ((set_br s br)\<lparr>dd_data := y, dd_src := q, dd_col := dd_col s + len\<rparr>))"
    for x p y q
    using ctx rel by (intro advance_rows_alpha) (auto simp: alpha_rel_def alpha_ctx_rel_def)
  have g: "ad_htree_group a = dd_htree_group s"
    using rel run ctx by (simp add: alpha_rel_def alpha_ctx_rel_def)
  show ?thesis
    using rel run ctx pos c32 c8 g by (simp add: alpha_rel_def alpha_ctx_rel_def)
qed


lemma alpha_rel_tables:
  assumes "alpha_rel ac c a s"
  shows "huffman_tables (dec_hdr (ad_dec a)) = huffman_tables (dec_hdr (dd_dec s))"
    "htree_groups (dec_hdr (ad_dec a)) = htree_groups (dec_hdr (dd_dec s))"
    "huffman_mask (dec_hdr (ad_dec a)) = huffman_mask (dec_hdr (dd_dec s))"
    "GetHtreeGroupForPos (dec_hdr (ad_dec a)) = GetHtreeGroupForPos (dec_hdr (dd_dec s))"
    "color_cache_size (dec_hdr (ad_dec a)) = color_cache_size (dec_hdr (dd_dec s))"
  using assms by (auto simp: alpha_rel_def same_tables_def intro: same_tables_GetHtreeGroupForPos)

lemma alpha_rel_backref:
  assumes ctx: "alpha_ctx_rel ac c" and rel: "alpha_rel ac c a s"
    and ok: "alpha_hdr_ok (dec_hdr (dd_dec s))" and run: "dd_src s < ctx_width c * ctx_last_row c"
  shows "step_sim (alpha_rel ac c) (decode_backref c grp code s) (ad_decode_backref ac grp code a)"
proof -
  let ?hdr = "dec_hdr (dd_dec s)"
  note tabs = alpha_rel_tables [OF rel]
  have br: "dec_br (ad_dec a) = dec_br (dd_dec s)" "ad_pos a = dd_src s" "ad_col a = dd_col s"
    using rel by (simp_all add: alpha_rel_def)
  have off: "\<not> cache_on s'" if "dec_hdr (dd_dec s') = ?hdr" for s' :: "'b dd_state"
    using ok that by (simp add: cache_on_def alpha_hdr_ok_def)
  obtain len br1 where l: "GetCopyLength (code - NUM_LITERAL_CODES) (dec_br (dd_dec s)) = (len, br1)"
    by fastforce
  have len: "0 < len" using GetCopyLength_pos [of "code - NUM_LITERAL_CODES" "dec_br (dd_dec s)"] l by simp
  obtain dsym br2 where d: "ReadSymbol (huffman_tables ?hdr) (htrees grp ! DIST) br1 = (dsym, br2)"
    by fastforce
  obtain dcode br3 where g: "GetCopyDistance dsym br2 = (dcode, br3)" by fastforce
  let ?dist = "PlaneCodeToDistance (ctx_width c) dcode"
  have dist: "0 < ?dist" using PlaneCodeToDistance_pos [of "ctx_width c" dcode] by simp
  have w: "ac_width ac = ctx_width c" "ac_height ac = ctx_height c" "ac_last_row ac = ctx_last_row c"
    using ctx by (simp_all add: alpha_ctx_rel_def)
  show ?thesis
  proof (cases "br_eos br3")
    case True
    then show ?thesis using l d g by (simp add: decode_backref_def Let_def)
  next
    case neos: False
    show ?thesis
    proof (cases "dd_src s < ?dist \<or> ctx_width c * ctx_height c - dd_src s < len")
      case True
      then show ?thesis
        using neos l d g tabs br w by (auto simp: decode_backref_def ad_decode_backref_def Let_def)
    next
      case False
      let ?a1 = "ad_advance_rows ac ((ad_set_br a br3)\<lparr>ad_data := CopyBlock8b (ac_data_addr ac + ad_pos a) (ad_data a) (ad_pos a) ?dist len,
                                  ad_pos := ad_pos a + len, ad_col := ad_col a + len\<rparr>)"
      let ?s1 = "advance_rows c ((set_br s br3)\<lparr>dd_data := CopyBlock32b (ctx_data_addr c + 4 * dd_src s) (dd_data s) (dd_src s) ?dist len,
                                  dd_src := dd_src s + len, dd_col := dd_col s + len\<rparr>)"
      have r1: "alpha_rel ac c ?a1 ?s1"
        using False by (intro alpha_rel_copy [OF ctx rel run dist _ len]) simp_all
      have col: "ad_col ?a1 = dd_col ?s1"
        using r1 unfolding alpha_rel_def by blast
      have hd: "dec_hdr (ad_dec ?a1) = dec_hdr (ad_dec a)"
        by simp
      have G: "\<forall>x y. GetHtreeGroupForPos ?hdr x y < length (htree_groups (dec_hdr (ad_dec ?a1)))"
        using ok tabs hd by (simp add: alpha_hdr_ok_def)
      have r2: "alpha_rel ac c
              (if ad_pos ?a1 < ac_width ac * ac_last_row ac \<and> (int (ad_col ?a1) AND huffman_mask ?hdr) \<noteq> 0
               then ?a1\<lparr>ad_htree_group := GetHtreeGroupForPos ?hdr (ad_col ?a1) (ad_row ?a1)\<rparr> else ?a1)
              (if (int (dd_col ?s1) AND huffman_mask ?hdr) \<noteq> 0
               then ?s1\<lparr>dd_htree_group := GetHtreeGroupForPos ?hdr (dd_col ?s1) (dd_row ?s1)\<rparr> else ?s1)"
        using alpha_rel_refresh [OF r1 G] col by simp
      have e32: "decode_backref c grp code s = Continue
              (if (int (dd_col ?s1) AND huffman_mask ?hdr) \<noteq> 0
               then ?s1\<lparr>dd_htree_group := GetHtreeGroupForPos ?hdr (dd_col ?s1) (dd_row ?s1)\<rparr> else ?s1)"
        using False neos l d g off by (simp add: decode_backref_def Let_def)
      have e8: "ad_decode_backref ac grp code a = Continue
              (if ad_pos ?a1 < ac_width ac * ac_last_row ac \<and> (int (ad_col ?a1) AND huffman_mask ?hdr) \<noteq> 0
               then ?a1\<lparr>ad_htree_group := GetHtreeGroupForPos ?hdr (ad_col ?a1) (ad_row ?a1)\<rparr> else ?a1)"
        using False neos l d g tabs br w by (simp add: ad_decode_backref_def Let_def)
      show ?thesis
        using r2 by (simp only: e32 e8 step_sim.simps)
    qed
  qed
qed


lemma sync_frame [simp]:
  "dec_br (dd_dec (DecodeImageData_sync s)) = dec_br (dd_dec s)"
  "dd_htree_group (DecodeImageData_sync s) = dd_htree_group s"
  "huffman_mask (dec_hdr (dd_dec (DecodeImageData_sync s))) = huffman_mask (dec_hdr (dd_dec s))"
  "htree_groups (dec_hdr (dd_dec (DecodeImageData_sync s))) = htree_groups (dec_hdr (dd_dec s))"
  "huffman_tables (dec_hdr (dd_dec (DecodeImageData_sync s))) = huffman_tables (dec_hdr (dd_dec s))"
  "color_cache_size (dec_hdr (dd_dec (DecodeImageData_sync s))) = color_cache_size (dec_hdr (dd_dec s))"
  "dd_dec (DecodeImageData_tile s) = dd_dec s"
  by (simp_all add: DecodeImageData_sync_def SaveState_def DecodeImageData_tile_def Let_def)

lemma alpha_hdr_ok_sync [simp]:
  "alpha_hdr_ok (dec_hdr (dd_dec (DecodeImageData_sync s))) = alpha_hdr_ok (dec_hdr (dd_dec s))"
  by (simp add: alpha_hdr_ok_def)

lemma alpha_rel_tile:
  assumes rel: "alpha_rel ac c a s" and ok: "alpha_hdr_ok (dec_hdr (dd_dec s))"
    and run: "dd_src s < ac_width ac * ac_last_row ac"
  shows "alpha_rel ac c
           (if (int (ad_col a) AND huffman_mask (dec_hdr (ad_dec a))) = 0
            then a\<lparr>ad_htree_group := GetHtreeGroupForPos (dec_hdr (ad_dec a)) (ad_col a) (ad_row a)\<rparr> else a)
           (DecodeImageData_tile (DecodeImageData_sync s))"
proof -
  note tabs = alpha_rel_tables [OF rel]
  have g: "ad_htree_group a = dd_htree_group s"
    using rel run by (simp add: alpha_rel_def)
  show ?thesis
    using rel ok tabs g
    by (auto simp: alpha_rel_def alpha_hdr_ok_def DecodeImageData_tile_def Let_def)
qed

lemma alpha_rel_set_br: "alpha_rel ac c a s \<Longrightarrow> alpha_rel ac c (ad_set_br a b) (set_br s b)"
  by (simp add: alpha_rel_def)

lemma alpha_rel_set_pixel:
  "alpha_rel ac c a s \<Longrightarrow> green v = x
   \<Longrightarrow> alpha_rel ac c (a\<lparr>ad_data := (ad_data a)[ad_pos a := x]\<rparr>) (set_pixel s v)"
  by (simp add: alpha_rel_def map_update)


lemma alpha_pass_sim:
  assumes ctx: "alpha_ctx_rel ac c" and rel: "alpha_rel ac c a s"
    and ok: "alpha_hdr_ok (dec_hdr (dd_dec s))" and run: "dd_src s < ctx_width c * ctx_last_row c"
  shows "step_sim (alpha_rel ac c) (DecodeImageData_body c s) (DecodeAlphaData_body ac a)"
proof -
  let ?hdr = "dec_hdr (dd_dec s)"
  let ?s1 = "DecodeImageData_tile (DecodeImageData_sync s)"
  define a1 where "a1 = (if (int (ad_col a) AND huffman_mask (dec_hdr (ad_dec a))) = 0
             then a\<lparr>ad_htree_group := GetHtreeGroupForPos (dec_hdr (ad_dec a)) (ad_col a) (ad_row a)\<rparr> else a)"
  have f1: "ad_dec a1 = ad_dec a" "ad_pos a1 = ad_pos a"
    by (simp_all add: a1_def)
  note tabs = alpha_rel_tables [OF rel]
  have w: "ac_width ac = ctx_width c" "ac_last_row ac = ctx_last_row c"
    using ctx by (simp_all add: alpha_ctx_rel_def)
  have r1: "alpha_rel ac c a1 ?s1"
    unfolding a1_def using rel ok run w by (intro alpha_rel_tile) simp_all
  have h1: "dec_hdr (dd_dec ?s1) = dec_hdr (dd_dec (DecodeImageData_sync s))" by simp
  have b1: "dec_br (ad_dec a1) = dec_br (dd_dec s)" and p1: "ad_pos a1 = dd_src s"
    using rel f1 by (simp_all add: alpha_rel_def)
  have "ad_pos a1 < ac_width ac * ac_last_row ac"
    using p1 run w by simp
  then have g1: "ad_htree_group a1 = dd_htree_group ?s1"
    using r1 unfolding alpha_rel_def by blast
  define grp where "grp = htree_groups ?hdr ! dd_htree_group ?s1"
  have "dd_htree_group ?s1 < length (htree_groups ?hdr)"
    using r1 g1 tabs f1 by (simp add: alpha_rel_def)
  then have triv: "is_trivial_literal grp" "green (literal_arb grp) = 0"
    using ok by (simp_all add: grp_def alpha_hdr_ok_def list_all_length)
  obtain code br where rs: "ReadSymbol (huffman_tables ?hdr) (htrees grp ! GREEN) (dec_br (dd_dec s)) = (code, br)"
    by fastforce
  let ?s2 = "set_br ?s1 br"
  let ?a2 = "ad_set_br a1 br"
  have r2: "alpha_rel ac c ?a2 ?s2" using r1 by (rule alpha_rel_set_br)
  have off: "\<not> cache_on ?s2" "color_cache_size ?hdr = 0"
    using ok by (simp_all add: cache_on_def alpha_hdr_ok_def)
  have e32: "DecodeImageData_body c s =
      (if br_eos br then Break ?s2 else if code < NUM_LITERAL_CODES then decode_literal c grp code ?s2
       else if code < NUM_LITERAL_CODES + NUM_LENGTH_CODES then decode_backref c grp code ?s2 else Fail ?s2)"
    using rs off(2) h1 by (simp add: DecodeImageData_body_def Let_def grp_def)
  have e8: "DecodeAlphaData_body ac a =
      (if code < NUM_LITERAL_CODES then Continue (ad_advance_by_one ac (?a2\<lparr>ad_data := (ad_data ?a2)[ad_pos ?a2 := of_nat code]\<rparr>))
       else if code < NUM_LITERAL_CODES + NUM_LENGTH_CODES then ad_decode_backref ac grp code ?a2 else Fail ?a2)"
    unfolding DecodeAlphaData_body_def Let_def a1_def [symmetric]
    using rs tabs g1 b1 f1 by (simp add: grp_def)
  have lit: "step_sim (alpha_rel ac c) (decode_literal c grp code ?s2)
               (Continue (ad_advance_by_one ac (?a2\<lparr>ad_data := (ad_data ?a2)[ad_pos ?a2 := of_nat code]\<rparr>)))"
    if "code < NUM_LITERAL_CODES"
  proof -
    have "green (literal_arb grp OR push_bit 8 (of_nat code)) = of_nat code"
      using that triv by (intro green_literal) simp_all
    then have "alpha_rel ac c (?a2\<lparr>ad_data := (ad_data ?a2)[ad_pos ?a2 := of_nat code]\<rparr>)
                 (set_pixel ?s2 (literal_arb grp OR push_bit 8 (of_nat code)))"
      by (rule alpha_rel_set_pixel [OF r2])
    then show ?thesis
      using triv off by (simp add: decode_literal_def alpha_rel_advance_by_one [OF ctx])
  qed
  have bref: "step_sim (alpha_rel ac c) (decode_backref c grp code ?s2) (ad_decode_backref ac grp code ?a2)"
    using ctx r2 ok run by (intro alpha_rel_backref) simp_all
  show ?thesis
    using lit bref by (simp add: e32 e8)
qed


subsection \<open>The loops\<close>

lemma advance_by_one_br [simp]: "dec_br (dd_dec (advance_by_one c s)) = dec_br (dd_dec s)"
  by (simp add: advance_by_one_def Let_def)

lemma DecodeImageData_body_continue_eos:
  "DecodeImageData_body c s = Continue s' \<Longrightarrow> \<not> br_eos (dec_br (dd_dec s'))"
  by (auto simp: DecodeImageData_body_def decode_literal_def decode_backref_def decode_cache_ref_def
      Let_def split: prod.splits if_splits)

lemma alpha_hdr_ok_continue:
  assumes "DecodeImageData_body c s = Continue s'"
  shows "alpha_hdr_ok (dec_hdr (dd_dec s')) = alpha_hdr_ok (dec_hdr (dd_dec s))"
proof -
  have "same_tables (dec_hdr (dd_dec s)) (dec_hdr (dd_dec s'))"
    using DecodeImageData_body_same_tables [of "dec_hdr (dd_dec s)" c s] assms
    by (simp add: same_tables_def)
  then show ?thesis
    by (simp add: alpha_hdr_ok_def same_tables_def GetHtreeGroupForPos_def)
qed

text \<open>
  C27. The 8-bit loop of \<open>DecodeAlphaData\<close> refines the 32-bit loop of
  \<open>DecodeImageData\<close>: from related states, on a header \<open>Is8bOptimizable\<close> accepts, every
  run of the 32-bit loop that does not stop at the end of the stream is matched by the
  8-bit loop with the same outcome, and on success the states are related, so the
  alpha buffer is the green channel of the pixel buffer.
\<close>

theorem DecodeAlphaData_loop_refines:
  assumes "alpha_ctx_rel ac c" "alpha_rel ac c a s" "alpha_hdr_ok (dec_hdr (dd_dec s))"
    "\<not> br_eos (dec_br (dd_dec s))" "DecodeImageData_loop c s = (ok, s')"
    "\<not> br_eos (dec_br (dd_dec s'))"
  shows "\<exists>a'. DecodeAlphaData_loop ac a = (ok, a') \<and> (ok \<longrightarrow> alpha_rel ac c a' s')"
  using assms
proof (induction c s arbitrary: a rule: DecodeImageData_loop.induct)
  case (1 c s)
  have w: "ac_width ac * ac_last_row ac = ctx_width c * ctx_last_row c" and p: "ad_pos a = dd_src s"
    and b: "dec_br (ad_dec a) = dec_br (dd_dec s)"
    using "1.prems"(1,2) by (simp_all add: alpha_ctx_rel_def alpha_rel_def)
  show ?case
  proof (cases "dd_src s < ctx_width c * ctx_last_row c")
    case False
    then show ?thesis
      using "1.prems" w p by (simp add: DecodeImageData_loop.simps [of c s] DecodeAlphaData_loop.simps [of ac a])
  next
    case run: True
    have sim: "step_sim (alpha_rel ac c) (DecodeImageData_body c s) (DecodeAlphaData_body ac a)"
      using "1.prems" run by (intro alpha_pass_sim)
    have top: "DecodeAlphaData_loop ac a = (case DecodeAlphaData_body ac a of
                 Continue a' \<Rightarrow> DecodeAlphaData_loop ac a' | Break a' \<Rightarrow> (True, a') | Fail a' \<Rightarrow> (False, a'))"
      using run w p b "1.prems"(4) by (simp add: DecodeAlphaData_loop.simps [of ac a])
    show ?thesis
    proof (cases "DecodeImageData_body c s")
      case (Continue s1)
      obtain a1 where a1: "DecodeAlphaData_body ac a = Continue a1" "alpha_rel ac c a1 s1"
        using sim Continue by (cases "DecodeAlphaData_body ac a") auto
      have "DecodeImageData_loop c s1 = (ok, s')"
        using "1.prems"(5) run Continue by (simp add: DecodeImageData_loop.simps [of c s])
      moreover have "alpha_hdr_ok (dec_hdr (dd_dec s1))" "\<not> br_eos (dec_br (dd_dec s1))"
        using "1.prems"(3) Continue alpha_hdr_ok_continue DecodeImageData_body_continue_eos by blast+
      ultimately show ?thesis
        using "1.IH" [OF run Continue "1.prems"(1) a1(2)] "1.prems"(6) top a1(1) by simp
    next
      case (Break s1)
      then have "s' = s1"
        using "1.prems"(5) run by (simp add: DecodeImageData_loop.simps [of c s])
      then show ?thesis
        using Break "1.prems"(6) DecodeImageData_body_break_eos by blast
    next
      case (Fail s1)
      obtain a1 where a1: "DecodeAlphaData_body ac a = Fail a1"
        using sim Fail by (cases "DecodeAlphaData_body ac a") auto
      have "ok = False"
        using "1.prems"(5) run Fail by (simp add: DecodeImageData_loop.simps [of c s])
      then show ?thesis
        using top a1 by simp
    qed
  qed
qed

theorem DecodeAlphaData_loop_refines_witness:
  "\<exists>a'. DecodeAlphaData_loop fx_actx fx_astate = (True, a')
     \<and> alpha_rel fx_actx fx_ctx a' (snd (DecodeImageData_loop fx_ctx fx_rstate))"
proof -
  have h: "alpha_ctx_rel fx_actx fx_ctx" "alpha_rel fx_actx fx_ctx fx_astate fx_rstate"
    "alpha_hdr_ok (dec_hdr (dd_dec fx_rstate))" "\<not> br_eos (dec_br (dd_dec fx_rstate))"
    by (simp_all add: alpha_ctx_rel_def alpha_rel_def alpha_hdr_ok_def fx_alpha_defs same_tables_def
        green_def pbyte_def GetHtreeGroupForPos_def GetMetaIndex_def VP8LInitBitReader_def)
  have "\<exists>s1. DecodeImageData_body fx_ctx fx_rstate = Continue s1 \<and> dd_src s1 = 4"
    by (simp add: DecodeImageData_body_def decode_literal_def fx_alpha_defs Let_def ReadSymbol_def
        VP8LPrefetchBits_zero VP8LInitBitReader_def DecodeImageData_sync_def DecodeImageData_tile_def
        set_br_def VP8LSetBitPos_def VP8LIsEndOfStream_def HUFFMAN_TABLE_BITS_def HUFFMAN_TABLE_MASK_def
        GetHtreeGroupForPos_def GetMetaIndex_def GREEN_def)
  then obtain s1 where b: "DecodeImageData_body fx_ctx fx_rstate = Continue s1" and p: "dd_src s1 = 4"
    by blast
  have loop: "DecodeImageData_loop fx_ctx fx_rstate = (True, s1)"
    using DecodeImageData_loop_step(2) [OF _ b] DecodeImageData_loop_step(1) [of s1 fx_ctx] p
    by (simp add: fx_alpha_defs)
  show ?thesis
    using DecodeAlphaData_loop_refines [OF h loop DecodeImageData_body_continue_eos [OF b]] loop
    by simp
qed

end
