(* ===== verification/RowPipeline.thy ===== *)
theory RowPipeline
  imports AlphaRefine
begin

text \<open>
  The row pipeline of the 32-bit path (vp8l.cpp, lines 482--502, 591--617, 661--738,
  1398--1415): \<open>SetCropWindow\<close>, \<open>ApplyInverseTransforms\<close>, \<open>EmitRows\<close>,
  \<open>EmitRowsYUVA\<close>, \<open>ProcessRows\<close> and \<open>ExtractAlphaRows\<close>.  The row hook's state
  \<open>row_pipe\<close> gathers what these functions read and write through \<open>dec\<close> and
  \<open>dec->io_\<close>: the watermarks \<open>last_row_\<close> and \<open>last_out_row_\<close>, the scratch rows
  \<open>argb_cache_\<close>, the crop window and the \<open>mb_*\<close> fields of \<open>VP8Io\<close>, and the output.
  The kernels that live outside src/ are parameters: \<open>VP8LInverseTransform\<close> (dsp/)
  as \<open>inv_transform\<close>, the row conversions \<open>VP8LConvertFromBGRA\<close> and \<open>ConvertToYUVA\<close> as
  \<open>convert\<close>, and the rescaler paths \<open>EmitRescaledRowsRGBA\<close>/\<open>EmitRescaledRowsYUVA\<close>
  (utils/rescaler) as \<open>rescale\<close>, which return the output and the rows they emit.
  Pointers into the scratch rows are byte offsets, as in the C code.
\<close>

record 'x row_pipe =
  rp_last_row :: nat
  rp_last_out_row :: nat
  rp_argb_cache :: "u32 list"
  rp_width :: nat
  rp_crop_top :: nat
  rp_crop_bottom :: nat
  rp_crop_left :: nat
  rp_crop_right :: nat
  rp_mb_y :: nat
  rp_mb_w :: nat
  rp_mb_h :: nat
  rp_use_scaling :: bool
  rp_yuv :: bool
  rp_out :: 'x

text \<open>
  \<open>SetCropWindow(io, y_start, y_end, &in_data, pixel_stride)\<close>: clip \<open>[y_start, y_end)\<close>
  to the crop rows, move the input pointer past the rows cut at the top (also when the
  window turns out empty), then past \<open>crop_left\<close> pixels, and set \<open>mb_y\<close>, \<open>mb_w\<close>,
  \<open>mb_h\<close>.  The result is the return value, the \<open>VP8Io\<close> part and the pointer.
\<close>

definition SetCropWindow :: "'x row_pipe \<Rightarrow> nat \<Rightarrow> nat \<Rightarrow> nat \<Rightarrow> nat \<Rightarrow> bool \<times> 'x row_pipe \<times> nat" where
  "SetCropWindow io y_start y_end in_data pixel_stride =
     (let y_end = (if y_end > rp_crop_bottom io then rp_crop_bottom io else y_end);
          (y_start, in_data) = (if y_start < rp_crop_top io
                                then (rp_crop_top io, in_data + (rp_crop_top io - y_start) * pixel_stride)
                                else (y_start, in_data))
      in if y_start \<ge> y_end then (False, io, in_data)
         else (True, io\<lparr>rp_mb_y := y_start - rp_crop_top io, rp_mb_w := rp_crop_right io - rp_crop_left io,
                         rp_mb_h := y_end - y_start\<rparr>,
               in_data + rp_crop_left io * 4))"

text \<open>
  \<open>ApplyInverseTransforms\<close>: copy the \<open>width * num_rows\<close> decoded pixels into the
  scratch rows, then undo the transforms from the last one read to the first; the first
  inverse reads the decoded rows, each later one the scratch rows it writes.
\<close>

definition ApplyInverseTransforms ::
  "(vp8l_transform \<Rightarrow> nat \<Rightarrow> nat \<Rightarrow> u32 list \<Rightarrow> u32 list \<Rightarrow> u32 list)
   \<Rightarrow> vp8l_transform list \<Rightarrow> nat \<Rightarrow> nat \<Rightarrow> nat \<Rightarrow> nat \<Rightarrow> u32 list \<Rightarrow> u32 list \<Rightarrow> u32 list" where
  "ApplyInverseTransforms inv_transform transforms next_transform width start_row num_rows rows argb_cache =
     (let cache_pixs = width * num_rows;
          end_row = start_row + num_rows;
          rows_out = map (\<lambda>k. if k < cache_pixs then rows ! k else argb_cache ! k) [0..<length argb_cache]
      in snd (foldl (\<lambda>(rows_in, rows_out) n.
                       let rows_out = inv_transform (transforms ! n) start_row end_row rows_in rows_out
                       in (rows_out, rows_out))
                    (rows, rows_out) (rev [0..<next_transform])))"

text \<open>\<open>EmitRows\<close>: convert \<open>mb_h\<close> rows of \<open>mb_w\<close> pixels, one input stride apart, to the
  output rows from \<open>last_out_row\<close> on; it returns \<open>mb_h\<close>.\<close>

fun emit_rows_loop ::
  "('x \<Rightarrow> nat \<Rightarrow> u32 list \<Rightarrow> 'x) \<Rightarrow> u32 list \<Rightarrow> nat \<Rightarrow> nat \<Rightarrow> nat \<Rightarrow> nat \<Rightarrow> nat \<Rightarrow> 'x \<Rightarrow> 'x" where
  "emit_rows_loop convert cache row_in in_stride mb_w out_row 0 out = out"
| "emit_rows_loop convert cache row_in in_stride mb_w out_row (Suc lines) out =
     emit_rows_loop convert cache (row_in + in_stride) in_stride mb_w (Suc out_row) lines
       (convert out out_row (take mb_w (drop (row_in div 4) cache)))"

definition EmitRows ::
  "('x \<Rightarrow> nat \<Rightarrow> u32 list \<Rightarrow> 'x) \<Rightarrow> u32 list \<Rightarrow> nat \<Rightarrow> nat \<Rightarrow> nat \<Rightarrow> nat \<Rightarrow> nat \<Rightarrow> 'x \<Rightarrow> nat \<times> 'x" where
  "EmitRows convert cache row_in in_stride mb_w mb_h out_row out =
     (mb_h, emit_rows_loop convert cache row_in in_stride mb_w out_row mb_h out)"

text \<open>\<open>EmitRowsYUVA\<close>: the same loop with \<open>ConvertToYUVA\<close>; it returns the next output row.\<close>

definition EmitRowsYUVA ::
  "('x \<Rightarrow> nat \<Rightarrow> u32 list \<Rightarrow> 'x) \<Rightarrow> u32 list \<Rightarrow> nat \<Rightarrow> nat \<Rightarrow> nat \<Rightarrow> nat \<Rightarrow> nat \<Rightarrow> 'x \<Rightarrow> nat \<times> 'x" where
  "EmitRowsYUVA convert cache row_in in_stride mb_w num_rows y_pos out =
     (y_pos + num_rows, emit_rows_loop convert cache row_in in_stride mb_w y_pos num_rows out)"

text \<open>The kernels of the row pipeline.\<close>

record 'x pipe_kernels =
  pk_inverse :: "vp8l_transform \<Rightarrow> nat \<Rightarrow> nat \<Rightarrow> u32 list \<Rightarrow> u32 list \<Rightarrow> u32 list"
  pk_convert_rgba :: "'x \<Rightarrow> nat \<Rightarrow> u32 list \<Rightarrow> 'x"
  pk_convert_yuva :: "'x \<Rightarrow> nat \<Rightarrow> u32 list \<Rightarrow> 'x"
  pk_rescale_rgba :: "'x \<Rightarrow> u32 list \<Rightarrow> nat \<Rightarrow> nat \<Rightarrow> nat \<Rightarrow> 'x \<times> nat"
  pk_rescale_yuva :: "'x \<Rightarrow> u32 list \<Rightarrow> nat \<Rightarrow> nat \<Rightarrow> nat \<Rightarrow> 'x \<times> nat"

text \<open>
  \<open>ProcessRows(dec, row)\<close> with the decoder's transforms and width, which decoding does
  not change, as its first arguments: nothing when no row is new; otherwise the inverse
  transforms into the scratch rows, the crop window, the output (RGBA: \<open>last_out_row_\<close>
  grows by the rows emitted; YUVA: it becomes the next output row), and \<open>last_row_ = row\<close>.
\<close>

definition ProcessRows ::
  "'x pipe_kernels \<Rightarrow> vp8l_transform list \<Rightarrow> nat \<Rightarrow> nat
   \<Rightarrow> 'x row_pipe \<Rightarrow> u32 list \<Rightarrow> nat \<Rightarrow> 'x row_pipe" where
  "ProcessRows k transforms next_transform width io pixels row =
     (let rows = drop (width * rp_last_row io) pixels
      in if row \<le> rp_last_row io then io
         else
           (let num_rows = row - rp_last_row io;
                io = io\<lparr>rp_argb_cache := ApplyInverseTransforms (pk_inverse k) transforms next_transform
                                          width (rp_last_row io) num_rows rows (rp_argb_cache io)\<rparr>;
                in_stride = rp_width io * 4;
                (ok, io, rows_data) = SetCropWindow io (rp_last_row io) row 0 in_stride;
                io = (if \<not> ok then io
                      else if \<not> rp_yuv io then
                        (let (num_rows_out, out) =
                               (if rp_use_scaling io
                                then (let (out, n) = pk_rescale_rgba k (rp_out io) (rp_argb_cache io) rows_data
                                                       in_stride (rp_mb_h io) in (n, out))
                                else EmitRows (pk_convert_rgba k) (rp_argb_cache io) rows_data in_stride
                                       (rp_mb_w io) (rp_mb_h io) (rp_last_out_row io) (rp_out io))
                         in io\<lparr>rp_last_out_row := rp_last_out_row io + num_rows_out, rp_out := out\<rparr>)
                      else
                        (let (y_pos, out) =
                               (if rp_use_scaling io
                                then (let (out, n) = pk_rescale_yuva k (rp_out io) (rp_argb_cache io) rows_data
                                                       in_stride (rp_mb_h io) in (rp_last_out_row io + n, out))
                                else EmitRowsYUVA (pk_convert_yuva k) (rp_argb_cache io) rows_data in_stride
                                       (rp_mb_w io) (rp_mb_h io) (rp_last_out_row io) (rp_out io))
                         in io\<lparr>rp_last_out_row := y_pos, rp_out := out\<rparr>))
            in io\<lparr>rp_last_row := row\<rparr>))"

text \<open>
  \<open>ExtractAlphaRows(dec, row)\<close>, the row hook of the 32-bit alpha path: the inverse
  transforms, then the green byte (\<open>green\<close>, \<open>(src[i] >> 8) & 0xff\<close>) of each of the \<open>io->width * num_rows\<close> scratch pixels
  into the alpha plane from row \<open>last_row_\<close> on (the plane is \<open>rp_out\<close>, a byte list).
\<close>

definition ExtractAlphaRows ::
  "(vp8l_transform \<Rightarrow> nat \<Rightarrow> nat \<Rightarrow> u32 list \<Rightarrow> u32 list \<Rightarrow> u32 list) \<Rightarrow> vp8l_transform list \<Rightarrow> nat \<Rightarrow> nat
   \<Rightarrow> u8 list row_pipe \<Rightarrow> u32 list \<Rightarrow> nat \<Rightarrow> u8 list row_pipe" where
  "ExtractAlphaRows inv_transform transforms next_transform width io pixels row =
     (if row \<le> rp_last_row io then io
      else
        (let num_rows = row - rp_last_row io;
             rows = drop (width * rp_last_row io) pixels;
             cache = ApplyInverseTransforms inv_transform transforms next_transform width (rp_last_row io) num_rows
                       rows (rp_argb_cache io);
             cache_pixs = rp_width io * num_rows;
             dst = rp_width io * rp_last_row io;
             alpha = rp_out io;
             alpha = map (\<lambda>k. if dst \<le> k \<and> k < dst + cache_pixs then green (cache ! (k - dst))
                              else alpha ! k) [0..<length alpha]
         in io\<lparr>rp_argb_cache := cache, rp_out := alpha, rp_last_row := row, rp_last_out_row := row\<rparr>))"

text \<open>The rows of the crop window \<open>[crop_top, crop_bottom)\<close> above row \<open>r\<close>.\<close>

definition cropped_rows :: "nat \<Rightarrow> nat \<Rightarrow> nat \<Rightarrow> nat" where
  "cropped_rows t b r = min r b - min r t"

text \<open>The fixtures: identity kernels, and a 2-pixel-wide pipeline cropped to row 1.\<close>

definition pk_fx :: "unit pipe_kernels" where
  "pk_fx = \<lparr>pk_inverse = (\<lambda>t s e rin rout. rout), pk_convert_rgba = (\<lambda>x r p. x),
     pk_convert_yuva = (\<lambda>x r p. x), pk_rescale_rgba = (\<lambda>x c d st h. (x, 0)),
     pk_rescale_yuva = (\<lambda>x c d st h. (x, 0))\<rparr>"

definition rp_fx :: "'x \<Rightarrow> 'x row_pipe" where
  "rp_fx out = \<lparr>rp_last_row = 0, rp_last_out_row = 0, rp_argb_cache = [0, 0, 0, 0], rp_width = 2,
     rp_crop_top = 1, rp_crop_bottom = 2, rp_crop_left = 0, rp_crop_right = 2, rp_mb_y = 0, rp_mb_w = 0,
     rp_mb_h = 0, rp_use_scaling = False, rp_yuv = False, rp_out = out\<rparr>"

text \<open>A kernel record whose RGBA conversion records each row it is given with its output row.\<close>

definition pk_rec :: "(nat \<times> u32 list) list pipe_kernels" where
  "pk_rec = \<lparr>pk_inverse = (\<lambda>t s e rin rout. rout), pk_convert_rgba = (\<lambda>out r px. out @ [(r, px)]),
     pk_convert_yuva = (\<lambda>x r p. x), pk_rescale_rgba = (\<lambda>x c d st h. (x, 0)),
     pk_rescale_yuva = (\<lambda>x c d st h. (x, 0))\<rparr>"

subsection \<open>Cropping\<close>

lemma SetCropWindow_eq:
  "SetCropWindow io y_start y_end in_data stride =
     (let t = rp_crop_top io; ys = max y_start t; ye = min y_end (rp_crop_bottom io);
          in_data = in_data + (t - y_start) * stride
      in if ye \<le> ys then (False, io, in_data)
         else (True, io\<lparr>rp_mb_y := ys - t, rp_mb_w := rp_crop_right io - rp_crop_left io, rp_mb_h := ye - ys\<rparr>,
               in_data + rp_crop_left io * 4))"
  by (simp add: SetCropWindow_def Let_def max_def min_def not_less)

lemma SetCropWindow_frame [simp]:
  assumes "SetCropWindow io y_start y_end in_data stride = (ok, io', in_data')"
  shows "rp_last_row io' = rp_last_row io" "rp_last_out_row io' = rp_last_out_row io"
    "rp_argb_cache io' = rp_argb_cache io" "rp_width io' = rp_width io"
    "rp_crop_top io' = rp_crop_top io" "rp_crop_bottom io' = rp_crop_bottom io"
    "rp_crop_left io' = rp_crop_left io" "rp_crop_right io' = rp_crop_right io"
    "rp_use_scaling io' = rp_use_scaling io" "rp_yuv io' = rp_yuv io" "rp_out io' = rp_out io"
  using assms by (auto simp: SetCropWindow_eq Let_def split: if_splits)

lemma SetCropWindow_empty:
  "min y_end (rp_crop_bottom io) \<le> max y_start (rp_crop_top io) \<Longrightarrow>
   SetCropWindow io y_start y_end in_data stride = (False, io, in_data + (rp_crop_top io - y_start) * stride)"
  unfolding SetCropWindow_eq Let_def by (rule if_P)

lemma SetCropWindow_nonempty:
  "\<not> min y_end (rp_crop_bottom io) \<le> max y_start (rp_crop_top io) \<Longrightarrow>
   SetCropWindow io y_start y_end in_data stride
   = (True, io\<lparr>rp_mb_y := max y_start (rp_crop_top io) - rp_crop_top io,
               rp_mb_w := rp_crop_right io - rp_crop_left io,
               rp_mb_h := min y_end (rp_crop_bottom io) - max y_start (rp_crop_top io)\<rparr>,
      in_data + (rp_crop_top io - y_start) * stride + rp_crop_left io * 4)"
  unfolding SetCropWindow_eq Let_def by (rule if_not_P)

lemma foldl_snoc_map: "foldl (\<lambda>x j. x @ [f j]) out xs = out @ map f xs"
  by (induction xs arbitrary: out) simp_all

lemma ApplyInverseTransforms_copy:
  "ApplyInverseTransforms it ts 0 w s n rows cache
   = map (\<lambda>k. if k < w * n then rows ! k else cache ! k) [0..<length cache]"
  by (simp add: ApplyInverseTransforms_def Let_def)

lemma cropped_rows_diff:
  assumes "y_start < y_end" "t \<le> b"
  shows "(if min y_end b \<le> max y_start t then 0 else min y_end b - max y_start t)
         = cropped_rows t b y_end - cropped_rows t b y_start"
proof (cases "y_end \<le> t")
  case True
  then show ?thesis using assms by (simp add: cropped_rows_def)
next
  case c1: False
  show ?thesis
  proof (cases "b \<le> y_start")
    case True
    then show ?thesis using assms c1 by (simp add: cropped_rows_def)
  next
    case False
    then show ?thesis using assms c1 by (simp add: cropped_rows_def min_def max_def)
  qed
qed
lemma SetCropWindow_ok:
  "SetCropWindow io ys ye d st = (ok, io', d') \<Longrightarrow> ok = (\<not> min ye (rp_crop_bottom io) \<le> max ys (rp_crop_top io))"
  unfolding SetCropWindow_eq Let_def by (cases "min ye (rp_crop_bottom io) \<le> max ys (rp_crop_top io)") auto

lemma SetCropWindow_mb_h:
  "SetCropWindow io ys ye d st = (True, io', d') \<Longrightarrow> rp_mb_h io' = min ye (rp_crop_bottom io) - max ys (rp_crop_top io)"
  unfolding SetCropWindow_eq Let_def by (cases "min ye (rp_crop_bottom io) \<le> max ys (rp_crop_top io)") auto

lemma SetCropWindow_rows:
  assumes "SetCropWindow io y_start y_end in_data stride = (ok, io', in_data')"
    and "y_start < y_end" "rp_crop_top io \<le> rp_crop_bottom io"
  shows "(if ok then rp_mb_h io' else 0)
         = cropped_rows (rp_crop_top io) (rp_crop_bottom io) y_end
           - cropped_rows (rp_crop_top io) (rp_crop_bottom io) y_start"
proof (cases ok)
  case True
  then show ?thesis
    using assms SetCropWindow_ok [OF assms(1)] SetCropWindow_mb_h [of io y_start y_end in_data stride io' in_data']
      cropped_rows_diff [OF assms(2,3)] by simp
next
  case False
  then show ?thesis
    using SetCropWindow_ok [OF assms(1)] cropped_rows_diff [OF assms(2,3)] by simp
qed

lemma ProcessRows_keeps_rows:
  assumes "\<not> rp_use_scaling io" "rp_crop_top io \<le> rp_crop_bottom io"
    and "rp_last_out_row io = cropped_rows (rp_crop_top io) (rp_crop_bottom io) (rp_last_row io)"
  shows "rp_last_out_row (ProcessRows k transforms n w io pixels row)
           = cropped_rows (rp_crop_top io) (rp_crop_bottom io) (rp_last_row (ProcessRows k transforms n w io pixels row))
         \<and> rp_last_row io \<le> rp_last_row (ProcessRows k transforms n w io pixels row)"
proof (cases "row \<le> rp_last_row io")
  case True
  then show ?thesis using assms(3) by (simp add: ProcessRows_def)
next
  case False
  let ?io1 = "io\<lparr>rp_argb_cache := ApplyInverseTransforms (pk_inverse k) transforms n w (rp_last_row io)
                  (row - rp_last_row io) (drop (w * rp_last_row io) pixels) (rp_argb_cache io)\<rparr>"
  obtain ok io2 rd where sc: "SetCropWindow ?io1 (rp_last_row io) row 0 (rp_width io * 4) = (ok, io2, rd)"
    by (cases "SetCropWindow ?io1 (rp_last_row io) row 0 (rp_width io * 4)") auto
  note fr = SetCropWindow_frame [OF sc]
  have pr: "rp_last_out_row (ProcessRows k transforms n w io pixels row)
              = rp_last_out_row io + (if ok then rp_mb_h io2 else 0)"
    "rp_last_row (ProcessRows k transforms n w io pixels row) = row"
    using False sc fr assms(1)
    by (auto simp: ProcessRows_def Let_def EmitRows_def EmitRowsYUVA_def split: prod.splits)
  have "(if ok then rp_mb_h io2 else 0)
        = cropped_rows (rp_crop_top io) (rp_crop_bottom io) row
          - cropped_rows (rp_crop_top io) (rp_crop_bottom io) (rp_last_row io)"
    using SetCropWindow_rows [OF sc] False assms(2) by simp
  moreover have "cropped_rows (rp_crop_top io) (rp_crop_bottom io) (rp_last_row io)
                 \<le> cropped_rows (rp_crop_top io) (rp_crop_bottom io) row"
    using False assms(2) by (auto simp: cropped_rows_def min_def)
  ultimately show ?thesis
    using pr assms(3) False by simp
qed

lemma ProcessRows_frame [simp]:
  "rp_crop_top (ProcessRows k transforms n w io pixels row) = rp_crop_top io"
  "rp_crop_bottom (ProcessRows k transforms n w io pixels row) = rp_crop_bottom io"
  "rp_use_scaling (ProcessRows k transforms n w io pixels row) = rp_use_scaling io"
proof -
  let ?io1 = "io\<lparr>rp_argb_cache := ApplyInverseTransforms (pk_inverse k) transforms n w (rp_last_row io)
                  (row - rp_last_row io) (drop (w * rp_last_row io) pixels) (rp_argb_cache io)\<rparr>"
  obtain ok io2 rd where sc: "SetCropWindow ?io1 (rp_last_row io) row 0 (rp_width io * 4) = (ok, io2, rd)"
    by (cases "SetCropWindow ?io1 (rp_last_row io) row 0 (rp_width io * 4)") auto
  note fr = SetCropWindow_frame [OF sc]
  show "rp_crop_top (ProcessRows k transforms n w io pixels row) = rp_crop_top io"
    "rp_crop_bottom (ProcessRows k transforms n w io pixels row) = rp_crop_bottom io"
    "rp_use_scaling (ProcessRows k transforms n w io pixels row) = rp_use_scaling io"
    using sc fr by (auto simp: ProcessRows_def Let_def EmitRows_def EmitRowsYUVA_def split: prod.splits)
qed

lemma emit_rows_loop_foldl:
  "emit_rows_loop convert cache row_in in_stride mb_w out_row lines out
   = foldl (\<lambda>x j. convert x (out_row + j) (take mb_w (drop ((row_in + j * in_stride) div 4) cache)))
       out [0..<lines]"
proof (induction lines arbitrary: row_in out_row out)
  case 0
  show ?case by simp
next
  case (Suc lines)
  show ?case
    by (simp add: Suc.IH upt_conv_Cons foldl_map algebra_simps del: upt_Suc flip: map_Suc_upt)
qed

lemma ProcessRows_emits:
  assumes "\<not> rp_use_scaling io" "\<not> rp_yuv io" "pk_convert_rgba k = (\<lambda>out r px. out @ [(r, px)])"
    and "\<not> row \<le> rp_last_row io"
    and "\<not> min row (rp_crop_bottom io) \<le> max (rp_last_row io) (rp_crop_top io)"
  shows "rp_out (ProcessRows k transforms 0 w io pixels row)
         = rp_out io @ map (\<lambda>j. (rp_last_out_row io + j,
              take (rp_crop_right io - rp_crop_left io)
                (drop (((rp_crop_top io - rp_last_row io) * (rp_width io * 4) + rp_crop_left io * 4
                       + j * (rp_width io * 4)) div 4)
                  (ApplyInverseTransforms (pk_inverse k) transforms 0 w (rp_last_row io) (row - rp_last_row io)
                     (drop (w * rp_last_row io) pixels) (rp_argb_cache io)))))
            [0..<min row (rp_crop_bottom io) - max (rp_last_row io) (rp_crop_top io)]"
  using assms
  by (simp add: ProcessRows_def Let_def SetCropWindow_nonempty EmitRows_def emit_rows_loop_foldl
                foldl_snoc_map del: SetCropWindow_frame)

lemma ProcessRows_no_rows:
  assumes "min row (rp_crop_bottom io) \<le> max (rp_last_row io) (rp_crop_top io)"
  shows "rp_out (ProcessRows k transforms n w io pixels row) = rp_out io"
proof (cases "row \<le> rp_last_row io")
  case True
  then show ?thesis by (simp add: ProcessRows_def)
next
  case False
  then show ?thesis using assms
    by (simp add: ProcessRows_def Let_def SetCropWindow_empty del: SetCropWindow_frame)
qed

lemma cache_slice:
  assumes "off + m \<le> w * nr" "w * nr \<le> length cache" "w * s + w * nr \<le> length pixels"
  shows "take m (drop off (map (\<lambda>k. if k < w * nr then drop (w * s) pixels ! k else cache ! k) [0..<length cache]))
         = take m (drop (w * s + off) pixels)"
proof (rule nth_equalityI)
  let ?c = "map (\<lambda>k. if k < w * nr then drop (w * s) pixels ! k else cache ! k) [0..<length cache]"
  have l1: "length (take m (drop off ?c)) = m" and l2: "length (take m (drop (w * s + off) pixels)) = m"
    using assms by simp_all
  then show "length (take m (drop off ?c)) = length (take m (drop (w * s + off) pixels))" by simp
  fix i assume "i < length (take m (drop off ?c))"
  then have i: "i < m" using l1 by simp
  then show "take m (drop off ?c) ! i = take m (drop (w * s + off) pixels) ! i"
    using assms by (simp add: add.assoc)
qed

text \<open>
  C33. Without rescaling, \<open>ProcessRows\<close> keeps \<open>last_out_row_\<close> equal to the number of
  rows of the crop window above \<open>last_row_\<close>, and \<open>last_row_\<close> never decreases: every
  row of the crop window is emitted once, in order, as spec 4.7 and testable property 2
  (section 8) ask.
\<close>

theorem ProcessRows_out_rows:
  assumes "\<not> rp_use_scaling io" "rp_crop_top io \<le> rp_crop_bottom io"
    and "rp_last_out_row io = cropped_rows (rp_crop_top io) (rp_crop_bottom io) (rp_last_row io)"
  shows "rp_last_out_row (ProcessRows k transforms n w io pixels row)
           = cropped_rows (rp_crop_top io) (rp_crop_bottom io) (rp_last_row (ProcessRows k transforms n w io pixels row))
         \<and> rp_last_row io \<le> rp_last_row (ProcessRows k transforms n w io pixels row)"
  using assms by (rule ProcessRows_keeps_rows)

theorem ProcessRows_out_rows_witness:
  "\<not> rp_use_scaling (rp_fx ()) \<and> rp_crop_top (rp_fx ()) \<le> rp_crop_bottom (rp_fx ())
   \<and> rp_last_out_row (rp_fx ()) = cropped_rows (rp_crop_top (rp_fx ())) (rp_crop_bottom (rp_fx ())) (rp_last_row (rp_fx ()))
   \<and> rp_last_out_row (ProcessRows pk_fx [] 0 2 (rp_fx ()) [0, 0, 0, 0] 2)
       = cropped_rows 1 2 (rp_last_row (ProcessRows pk_fx [] 0 2 (rp_fx ()) [0, 0, 0, 0] 2))"
proof -
  have h: "\<not> rp_use_scaling (rp_fx ())" "rp_crop_top (rp_fx ()) \<le> rp_crop_bottom (rp_fx ())"
    "rp_last_out_row (rp_fx ()) = cropped_rows (rp_crop_top (rp_fx ())) (rp_crop_bottom (rp_fx ())) (rp_last_row (rp_fx ()))"
    by (simp_all add: rp_fx_def cropped_rows_def)
  show ?thesis
    using ProcessRows_out_rows [OF h, of pk_fx "[]" 0 2 "[0, 0, 0, 0]" 2] h by (simp add: rp_fx_def)
qed

text \<open>
  C32. \<open>SetCropWindow\<close> clips the block of rows \<open>[y_start, y_end)\<close> to the crop window:
  it reports rows exactly when the clipped block is non-empty, and then \<open>mb_y\<close> is the
  clipped block's first row relative to \<open>crop_top\<close>, \<open>mb_h\<close> its length and \<open>mb_w\<close> the
  crop width, and the input pointer has moved past the rows cut at the top and the
  \<open>crop_left\<close> pixels; an empty block leaves \<open>io\<close> alone with the pointer moved past the
  rows cut at the top only.
\<close>

theorem SetCropWindow_window:
  assumes "SetCropWindow io y_start y_end in_data stride = (ok, io', in_data')"
  shows "ok = (max y_start (rp_crop_top io) < min y_end (rp_crop_bottom io))
         \<and> (ok \<longrightarrow> rp_mb_y io' = max y_start (rp_crop_top io) - rp_crop_top io
               \<and> rp_mb_h io' = min y_end (rp_crop_bottom io) - max y_start (rp_crop_top io)
               \<and> rp_mb_w io' = rp_crop_right io - rp_crop_left io
               \<and> in_data' = in_data + (rp_crop_top io - y_start) * stride + rp_crop_left io * 4)
         \<and> (\<not> ok \<longrightarrow> io' = io \<and> in_data' = in_data + (rp_crop_top io - y_start) * stride)"
proof (cases "min y_end (rp_crop_bottom io) \<le> max y_start (rp_crop_top io)")
  case True
  then have "(ok, io', in_data') = (False, io, in_data + (rp_crop_top io - y_start) * stride)"
    by (simp only: assms [symmetric] SetCropWindow_empty [OF True])
  moreover have "\<not> max y_start (rp_crop_top io) < min y_end (rp_crop_bottom io)"
    using True by (simp only: not_less)
  ultimately show ?thesis by (simp only: prod.inject) blast
next
  case False
  then have "(ok, io', in_data') = (True, io\<lparr>rp_mb_y := max y_start (rp_crop_top io) - rp_crop_top io,
                    rp_mb_w := rp_crop_right io - rp_crop_left io,
                    rp_mb_h := min y_end (rp_crop_bottom io) - max y_start (rp_crop_top io)\<rparr>,
           in_data + (rp_crop_top io - y_start) * stride + rp_crop_left io * 4)"
    by (simp only: assms [symmetric] SetCropWindow_nonempty [OF False])
  then show ?thesis using False by (simp add: not_le del: SetCropWindow_frame)
qed

theorem SetCropWindow_window_witness:
  "fst (SetCropWindow (rp_fx ()) 0 2 0 8)
   \<and> rp_mb_y (fst (snd (SetCropWindow (rp_fx ()) 0 2 0 8))) = 0
   \<and> rp_mb_h (fst (snd (SetCropWindow (rp_fx ()) 0 2 0 8))) = 1
   \<and> rp_mb_w (fst (snd (SetCropWindow (rp_fx ()) 0 2 0 8))) = 2
   \<and> snd (snd (SetCropWindow (rp_fx ()) 0 2 0 8)) = 8"
proof -
  have e: "SetCropWindow (rp_fx ()) 0 2 0 8
           = (fst (SetCropWindow (rp_fx ()) 0 2 0 8), fst (snd (SetCropWindow (rp_fx ()) 0 2 0 8)),
              snd (snd (SetCropWindow (rp_fx ()) 0 2 0 8)))" by simp
  show ?thesis
    using SetCropWindow_window [OF e] by (simp add: rp_fx_def del: SetCropWindow_frame)
qed

text \<open>
  C34. With no transform, \<open>ExtractAlphaRows\<close> stores in the alpha plane the green byte of
  each newly decoded pixel, at the same position: the 32-bit alpha path writes the
  green channel, the plane the 8-bit path decodes directly (C27).
\<close>

theorem ExtractAlphaRows_green:
  assumes "rp_last_row io < row" "i < rp_width io * (row - rp_last_row io)"
    and "rp_width io * (row - rp_last_row io) \<le> length (rp_argb_cache io)"
    and "rp_width io * rp_last_row io + i < length (rp_out io)"
    and "rp_width io * rp_last_row io + i < length pixels"
  shows "rp_out (ExtractAlphaRows inv_transform transforms 0 (rp_width io) io pixels row) ! (rp_width io * rp_last_row io + i)
         = green (pixels ! (rp_width io * rp_last_row io + i))"
  using assms by (simp add: ExtractAlphaRows_def ApplyInverseTransforms_def Let_def)

theorem ExtractAlphaRows_green_witness:
  "rp_out (ExtractAlphaRows (\<lambda>t s e rin rout. rout) [] 0 2 (rp_fx [0, 0, 0, 0]) [0x100, 0x7f00, 0, 0] 1) ! 1
   = green 0x7f00"
  using ExtractAlphaRows_green [of "rp_fx [0, 0, 0, 0]" 1 1 "[0x100, 0x7f00, 0, 0]" "\<lambda>t s e rin rout. rout" "[]"]
  by (simp add: rp_fx_def)

text \<open>
  C38. Without transforms and rescaling, \<open>ProcessRows\<close> hands the RGBA converter exactly
  the rows of the crop window it has not emitted yet, in order: decoded row \<open>y\<close> becomes
  output row \<open>y - crop_top\<close>, cut to the pixels \<open>[crop_left, crop_right)\<close> of that row of
  the pixel buffer, after the scratch copy of \<open>ApplyInverseTransforms\<close>, the pointer
  arithmetic of \<open>SetCropWindow\<close> and the strides of \<open>EmitRows\<close>.  The converter is a
  parameter; here it records each row it is given.
\<close>

theorem ProcessRows_emits_crop:
  assumes "\<not> rp_use_scaling io" "\<not> rp_yuv io" "pk_convert_rgba k = (\<lambda>out r px. out @ [(r, px)])"
    and "rp_width io = w" "rp_crop_left io \<le> rp_crop_right io" "rp_crop_right io \<le> w"
    and "rp_crop_top io \<le> rp_crop_bottom io"
    and "rp_last_out_row io = cropped_rows (rp_crop_top io) (rp_crop_bottom io) (rp_last_row io)"
    and "w * row \<le> length pixels" "w * (row - rp_last_row io) \<le> length (rp_argb_cache io)"
  shows "rp_out (ProcessRows k transforms 0 w io pixels row)
         = rp_out io @ map (\<lambda>y. (y - rp_crop_top io,
                                 take (rp_crop_right io - rp_crop_left io) (drop (w * y + rp_crop_left io) pixels)))
                         [max (rp_last_row io) (rp_crop_top io) ..< min row (rp_crop_bottom io)]"
proof (cases "min row (rp_crop_bottom io) \<le> max (rp_last_row io) (rp_crop_top io)")
  case True
  then show ?thesis by (simp add: ProcessRows_no_rows)
next
  case False
  define l where "l = rp_last_row io"
  define t where "t = rp_crop_top io"
  define ys where "ys = max l t"
  define h where "h = min row (rp_crop_bottom io) - ys"
  define mw where "mw = rp_crop_right io - rp_crop_left io"
  have lr: "\<not> row \<le> l" using False by (simp add: l_def)
  have ye: "min row (rp_crop_bottom io) = ys + h" using False by (simp add: h_def ys_def l_def t_def)
  have lo: "rp_last_out_row io + j = ys + j - t" if "j < h" for j
    using assms(7,8) that ye lr by (auto simp: cropped_rows_def ys_def l_def t_def min_def max_def)
  have off: "((t - l) * (w * 4) + rp_crop_left io * 4 + j * (w * 4)) div 4 = w * (ys - l + j) + rp_crop_left io"
    for j
  proof -
    have "(t - l) * (w * 4) + rp_crop_left io * 4 + j * (w * 4) = 4 * (w * (ys - l + j) + rp_crop_left io)"
      by (simp add: ys_def algebra_simps max_def)
    then show ?thesis by simp
  qed
  have slice: "take mw (drop (w * (ys - l + j) + rp_crop_left io)
                 (map (\<lambda>k. if k < w * (row - l) then drop (w * l) pixels ! k else rp_argb_cache io ! k)
                    [0..<length (rp_argb_cache io)]))
               = take mw (drop (w * (ys + j) + rp_crop_left io) pixels)" if "j < h" for j
  proof -
    have a: "ys - l + j + 1 \<le> row - l" using that ye lr by (simp add: ys_def)
    have "w * (ys - l + j) + rp_crop_left io + mw \<le> w * (ys - l + j + 1)"
      using assms(5,6) by (simp add: mw_def)
    also have "\<dots> \<le> w * (row - l)" by (rule mult_le_mono2 [OF a])
    finally have b: "w * (ys - l + j) + rp_crop_left io + mw \<le> w * (row - l)" .
    have c: "w * l + w * (row - l) \<le> length pixels"
      using assms(9) lr by (simp flip: add_mult_distrib2)
    have d: "w * l + (w * (ys - l + j) + rp_crop_left io) = w * (ys + j) + rp_crop_left io"
      by (simp add: ys_def add_mult_distrib2 [symmetric])
    show ?thesis
      using cache_slice [OF b assms(10) [folded l_def] c] d by simp
  qed
  have "rp_out (ProcessRows k transforms 0 w io pixels row)
        = rp_out io @ map (\<lambda>j. (ys + j - t, take mw (drop (w * (ys + j) + rp_crop_left io) pixels))) [0..<h]"
    using ProcessRows_emits [OF assms(1-3) lr [unfolded l_def] False] lo off slice assms(4)
    by (simp add: l_def [symmetric] t_def [symmetric] ys_def [symmetric] h_def [symmetric] mw_def [symmetric]
                  ApplyInverseTransforms_copy)
  also have "map (\<lambda>j. (ys + j - t, take mw (drop (w * (ys + j) + rp_crop_left io) pixels))) [0..<h]
             = map (\<lambda>y. (y - t, take mw (drop (w * y + rp_crop_left io) pixels))) [ys..<ys + h]"
    by (simp add: map_add_upt [symmetric, of ys h] add.commute)
  finally show ?thesis by (simp add: ye l_def t_def ys_def mw_def)
qed

theorem ProcessRows_emits_crop_witness:
  "rp_out (ProcessRows pk_rec [] 0 2 (rp_fx []) [1, 2, 3, 4] 2) = [(0, [3, 4])]"
  using ProcessRows_emits_crop [where io = "rp_fx []" and k = pk_rec and w = 2 and row = 2
                                  and pixels = "[1, 2, 3, 4]" and transforms = "[]"]
  by (simp add: rp_fx_def pk_rec_def cropped_rows_def upt_rec)

end
