(* ===== verification/DecoderAPI.thy ===== *)
theory DecoderAPI
  imports RowPipeline ImageStream
begin

text \<open>
  The decoder's entry points beyond the header (vp8l.cpp, lines 1361--1395, 1417--1468,
  1517--1575): the internal buffers \<open>AllocateInternalBuffers32b\<close>/\<open>8b\<close>,
  \<open>VP8LDecodeAlphaHeader\<close>, which selects the 8-bit alpha path, and
  \<open>VP8LDecodeImage\<close>, which sets up the output on its first call and runs
  \<open>DecodeImageData\<close> with \<open>ProcessRows\<close> as row hook.  An allocation is the layout of
  the block it returns (\<open>buffers\<close>): its size in bytes and where \<open>argb_cache_\<close> starts
  (in pixels); the pixel memory itself is an argument and a result, as \<open>pixels_\<close>
  outlives the calls.  \<open>WebPIoInitFromOptions\<close> (utils/, not under src/) is a parameter
  that returns the configured \<open>VP8Io\<close> part, or \<open>None\<close> when it fails.
\<close>

record buffers =
  buf_bytes :: nat
  buf_argb_cache :: "nat option"

text \<open>
  \<open>AllocateInternalBuffers32b(dec, final_width)\<close>: \<open>width_ * height_\<close> pixels, a top row
  of \<open>(uint16_t)final_width\<close> pixels, then the \<open>NUM_ARGB_CACHE_ROWS\<close> rows of
  \<open>argb_cache_\<close>; the cast is a 16-bit word.
\<close>

definition AllocateInternalBuffers32b ::
  "(alloc_site \<Rightarrow> bool) \<Rightarrow> 'o vp8l_decoder \<Rightarrow> nat \<Rightarrow> bool \<times> 'o vp8l_decoder \<times> buffers option" where
  "AllocateInternalBuffers32b alloc dec final_width =
     (let num_pixels = dec_width dec * dec_height dec;
          cache_top_pixels = unat (word_of_nat final_width :: 16 word);
          cache_pixels = final_width * NUM_ARGB_CACHE_ROWS;
          total_num_pixels = num_pixels + cache_top_pixels + cache_pixels
      in if \<not> alloc ALLOC_INTERNAL_BUFFERS
         then (False, dec\<lparr>dec_status := VP8_STATUS_OUT_OF_MEMORY\<rparr>, None)
         else (True, dec, Some \<lparr>buf_bytes = total_num_pixels * 4,
                                buf_argb_cache = Some (num_pixels + cache_top_pixels)\<rparr>))"

text \<open>\<open>AllocateInternalBuffers8b(dec)\<close>: one byte per pixel and no \<open>argb_cache_\<close>.\<close>

definition AllocateInternalBuffers8b ::
  "(alloc_site \<Rightarrow> bool) \<Rightarrow> 'o vp8l_decoder \<Rightarrow> bool \<times> 'o vp8l_decoder \<times> buffers option" where
  "AllocateInternalBuffers8b alloc dec =
     (let total_num_pixels = dec_width dec * dec_height dec
      in if \<not> alloc ALLOC_INTERNAL_BUFFERS
         then (False, dec\<lparr>dec_status := VP8_STATUS_OUT_OF_MEMORY\<rparr>, None)
         else (True, dec, Some \<lparr>buf_bytes = total_num_pixels, buf_argb_cache = None\<rparr>))"

text \<open>
  \<open>VP8LDecodeAlphaHeader\<close>: a new decoder for the alpha plane's size, the level-0 stream,
  then the 8-bit path when the stream has exactly one transform, colour indexing, and
  \<open>Is8bOptimizable\<close> holds, with the matching buffers.  Every failure deletes the decoder
  (\<open>None\<close>); success gives the decoder, \<open>use_8b_decode\<close> and the buffers.
\<close>

definition VP8LDecodeAlphaHeader ::
  "huffman_builder \<Rightarrow> (alloc_site \<Rightarrow> bool) \<Rightarrow> 'o \<Rightarrow> nat \<Rightarrow> nat \<Rightarrow> u8 list
   \<Rightarrow> ('o vp8l_decoder \<times> bool \<times> buffers) option" where
  "VP8LDecodeAlphaHeader build alloc io width height data =
     (if \<not> alloc ALLOC_DECODER then None
      else
        (let dec = (VP8LNew io)\<lparr>dec_width := width, dec_height := height, dec_status := VP8_STATUS_OK,
                                dec_br := VP8LInitBitReader data\<rparr>;
             (ok, dec) = DecodeImageStream build alloc width height dec
         in if \<not> ok then None
            else
              (let use_8b_decode = (dec_next_transform dec = 1
                                    \<and> tr_type (dec_transforms dec ! 0) = COLOR_INDEXING_TRANSFORM
                                    \<and> Is8bOptimizable (dec_hdr dec));
                   (ok, dec, buf) = (if use_8b_decode then AllocateInternalBuffers8b alloc dec
                                     else AllocateInternalBuffers32b alloc dec width)
               in case buf of
                    None \<Rightarrow> None
                  | Some b \<Rightarrow> if ok then Some (dec, use_8b_decode, b) else None)))"

text \<open>
  The decoding part of \<open>VP8LDecodeImage\<close>: \<open>DecodeImageData\<close> on the whole raster with
  \<open>ProcessRows\<close> as row hook, then \<open>last_y = last_out_row_\<close>, or the \<open>Err\<close> label
  (\<open>VP8LClear\<close>).  The result is the return value, the decoder, the pixels and
  \<open>params->last_y\<close> when it is set.
\<close>

definition VP8LDecodeImage_decode ::
  "'x pipe_kernels \<Rightarrow> nat \<Rightarrow> 'x row_pipe vp8l_decoder \<Rightarrow> u32 list
   \<Rightarrow> bool \<times> 'x row_pipe vp8l_decoder \<times> u32 list \<times> nat option" where
  "VP8LDecodeImage_decode k data_addr dec pixels =
     (let (ok, dec, pixels) = DecodeImageData dec pixels (dec_width dec) (dec_height dec) (dec_height dec)
                                (Some (ProcessRows k (dec_transforms dec) (dec_next_transform dec) (dec_width dec)))
                                data_addr
      in if \<not> ok then (False, VP8LClear dec, pixels, None)
         else (True, dec, pixels, Some (rp_last_out_row (dec_io dec))))"

text \<open>
  \<open>VP8LDecodeImage\<close>: on the first call (\<open>state_ != READ_DATA\<close>) the output set-up
  (\<open>INVALID_PARAM\<close> when it fails), the internal buffers for \<open>io->width\<close>, the rescaler when
  scaling, and in incremental mode with a colour cache the snapshot cache if it has none
  yet (\<open>colors_ == NULL\<close>: no colours); then
  \<open>state_ = READ_DATA\<close> and the decoding part.
\<close>

definition VP8LDecodeImage ::
  "('x row_pipe \<Rightarrow> 'x row_pipe option) \<Rightarrow> 'x pipe_kernels \<Rightarrow> (alloc_site \<Rightarrow> bool) \<Rightarrow> nat
   \<Rightarrow> 'x row_pipe vp8l_decoder \<Rightarrow> u32 list \<Rightarrow> bool \<times> 'x row_pipe vp8l_decoder \<times> u32 list \<times> nat option" where
  "VP8LDecodeImage init_io k alloc data_addr dec pixels =
     (if dec_state dec \<noteq> READ_DATA then
        (case init_io (dec_io dec) of
           None \<Rightarrow> (False, VP8LClear (dec\<lparr>dec_status := VP8_STATUS_INVALID_PARAM\<rparr>), pixels, None)
         | Some io \<Rightarrow>
             (let (ok, dec, buf) = AllocateInternalBuffers32b alloc (dec\<lparr>dec_io := io\<rparr>) (rp_width io);
                  hdr = dec_hdr dec;
                  init_saved = (dec_incremental dec \<and> 0 < color_cache_size hdr
                                \<and> cc_colors (saved_color_cache hdr) = [])
              in if \<not> ok then (False, VP8LClear dec, pixels, None)
                 else if rp_use_scaling io \<and> \<not> alloc ALLOC_RESCALER
                 then (False, VP8LClear (dec\<lparr>dec_status := VP8_STATUS_OUT_OF_MEMORY\<rparr>), pixels, None)
                 else if init_saved \<and> \<not> alloc ALLOC_SAVED_CACHE
                 then (False, VP8LClear (dec\<lparr>dec_status := VP8_STATUS_OUT_OF_MEMORY\<rparr>), pixels, None)
                 else VP8LDecodeImage_decode k data_addr
                        (dec\<lparr>dec_hdr := (if init_saved
                                          then hdr\<lparr>saved_color_cache := VP8LColorCacheInit (cc_hash_bits (color_cache hdr))\<rparr>
                                          else hdr),
                             dec_state := READ_DATA\<rparr>) pixels))
      else VP8LDecodeImage_decode k data_addr dec pixels)"


text \<open>Decoding changes the row hook's state only by calling the hook, so a property the
  hook keeps holds after every pass, the loop and \<open>DecodeImageData\<close>.\<close>

definition hook_keeps :: "('o \<Rightarrow> bool) \<Rightarrow> 'o dd_ctx \<Rightarrow> bool" where
  "hook_keeps P c \<longleftrightarrow> (case ctx_process_func c of None \<Rightarrow> True | Some f \<Rightarrow> (\<forall>io d r. P io \<longrightarrow> P (f io d r)))"

text \<open>The row pipeline's state as \<open>ProcessRows\<close> keeps it without rescaling: the output
  rows are the rows of the crop window above \<open>last_row_\<close>.\<close>

definition pipe_ok :: "'x row_pipe \<Rightarrow> bool" where
  "pipe_ok io \<longleftrightarrow> \<not> rp_use_scaling io \<and> rp_crop_top io \<le> rp_crop_bottom io
     \<and> rp_last_out_row io = cropped_rows (rp_crop_top io) (rp_crop_bottom io) (rp_last_row io)"

text \<open>A decoder in \<open>READ_DATA\<close> on the 2x2 fixture of \<open>DecodeProps\<close>, resumed at its last
  pixel, with the row pipeline \<open>rp_fx\<close>.\<close>

definition api_fx_dec :: "unit row_pipe vp8l_decoder" where
  "api_fx_dec = \<lparr>dec_status = VP8_STATUS_OK, dec_state = READ_DATA, dec_next_transform = 0,
     dec_transforms_seen = 0, dec_transforms = [], dec_br = VP8LInitBitReader [0, 0, 0, 0, 0, 0, 0, 0],
     dec_saved_br = VP8LInitBitReader [0, 0, 0, 0, 0, 0, 0, 0], dec_last_pixel = 3,
     dec_saved_last_pixel = 0, dec_incremental = False, dec_width = 2, dec_height = 2,
     dec_hdr = fx_hdr\<lparr>color_cache_size := 0\<rparr>, dec_io = rp_fx ()\<rparr>"

subsection \<open>Buffers\<close>

lemma cache_top_pixels:
  "unat (word_of_nat final_width :: 16 word) = final_width mod 65536"
  by (simp add: unat_of_nat)

text \<open>
  C36. The 32-bit internal buffers hold \<open>(W * H + NUM_ARGB_CACHE_ROWS * final_W + final_W) * 4\<close>
  bytes (spec section 5) when \<open>final_W\<close> fits the \<open>uint16_t\<close> cast, and \<open>argb_cache_\<close> starts
  after the pixels and the top row and ends exactly at the end of the block.
\<close>

theorem AllocateInternalBuffers32b_layout:
  assumes "AllocateInternalBuffers32b alloc dec final_width = (True, dec', Some b)"
    and "final_width < 65536"
  shows "buf_bytes b = (dec_width dec * dec_height dec + NUM_ARGB_CACHE_ROWS * final_width + final_width) * 4
         \<and> buf_argb_cache b = Some (dec_width dec * dec_height dec + final_width)
         \<and> dec_width dec * dec_height dec + final_width + NUM_ARGB_CACHE_ROWS * final_width = buf_bytes b div 4
         \<and> dec' = dec"
  using assms by (auto simp: AllocateInternalBuffers32b_def cache_top_pixels Let_def split: if_splits)

theorem AllocateInternalBuffers32b_layout_witness:
  "AllocateInternalBuffers32b (\<lambda>s. True) (VP8LNew ()\<lparr>dec_width := 2, dec_height := 2\<rparr>) 3
     = (True, VP8LNew ()\<lparr>dec_width := 2, dec_height := 2\<rparr>, Some \<lparr>buf_bytes = 220, buf_argb_cache = Some 7\<rparr>)
   \<and> (3::nat) < 65536
   \<and> buf_bytes \<lparr>buf_bytes = 220, buf_argb_cache = Some 7\<rparr> = (2 * 2 + NUM_ARGB_CACHE_ROWS * 3 + 3) * 4"
proof -
  have h: "AllocateInternalBuffers32b (\<lambda>s. True) (VP8LNew ()\<lparr>dec_width := 2, dec_height := 2\<rparr>) 3
     = (True, VP8LNew ()\<lparr>dec_width := 2, dec_height := 2\<rparr>, Some \<lparr>buf_bytes = 220, buf_argb_cache = Some 7\<rparr>)"
    by (simp add: AllocateInternalBuffers32b_def cache_top_pixels NUM_ARGB_CACHE_ROWS_def VP8LNew_def)
  show ?thesis
    using AllocateInternalBuffers32b_layout [OF h] h by (simp add: VP8LNew_def)
qed

text \<open>From \<open>final_width = 65536\<close> on, the cast drops the top row: \<open>argb_cache_\<close> starts right
  after the pixels and the block is 4 * final_width bytes short of the spec's bound.\<close>

lemma AllocateInternalBuffers32b_top_row_wraps:
  "AllocateInternalBuffers32b (\<lambda>s. True) dec 65536
     = (True, dec, Some \<lparr>buf_bytes = (dec_width dec * dec_height dec + NUM_ARGB_CACHE_ROWS * 65536) * 4,
                        buf_argb_cache = Some (dec_width dec * dec_height dec)\<rparr>)"
  by (simp add: AllocateInternalBuffers32b_def cache_top_pixels NUM_ARGB_CACHE_ROWS_def Let_def)

subsection \<open>Errors\<close>

lemma DecodeImageData_false_status:
  "DecodeImageData dec data w h last_row pf addr = (False, dec', data')
   \<Longrightarrow> dec_status dec' = VP8_STATUS_BITSTREAM_ERROR"
  by (auto simp: DecodeImageData_def Let_def split: prod.splits if_splits)

lemma VP8LDecodeImage_decode_status:
  "VP8LDecodeImage_decode k a dec px = (False, dec', px', y) \<Longrightarrow> dec_status dec' = VP8_STATUS_BITSTREAM_ERROR"
  by (auto simp: VP8LDecodeImage_decode_def Let_def split: prod.splits if_splits dest: DecodeImageData_false_status)

text \<open>
  C35. Whenever \<open>VP8LDecodeImage\<close> fails its status is not \<open>VP8_STATUS_OK\<close>, so the
  assert after its \<open>Err\<close> label holds on every path: a bad output set-up, each failed
  allocation and each failure of \<open>DecodeImageData\<close>.
\<close>

theorem VP8LDecodeImage_error_status:
  assumes "VP8LDecodeImage init_io k alloc data_addr dec pixels = (False, dec', pixels', last_y)"
  shows "dec_status dec' \<noteq> VP8_STATUS_OK \<and> last_y = None"
proof -
  have a: "AllocateInternalBuffers32b alloc d w = (False, d', b) \<Longrightarrow> dec_status d' = VP8_STATUS_OUT_OF_MEMORY"
    for d d' :: "'a row_pipe vp8l_decoder" and w b
    by (auto simp: AllocateInternalBuffers32b_def Let_def split: if_splits)
  have d: "VP8LDecodeImage_decode k data_addr d pixels = (False, d', p', y) \<Longrightarrow> y = None" for d d' p' y
    by (auto simp: VP8LDecodeImage_decode_def Let_def split: prod.splits if_splits)
  show ?thesis
    using assms
    by (auto simp: VP8LDecodeImage_def Let_def split: option.splits prod.splits if_splits
        dest: a d VP8LDecodeImage_decode_status)
qed

theorem VP8LDecodeImage_error_status_witness:
  "VP8LDecodeImage (\<lambda>io. None) pk_fx (\<lambda>s. True) 0 (VP8LNew (rp_fx ())) []
     = (False, VP8LClear ((VP8LNew (rp_fx ()))\<lparr>dec_status := VP8_STATUS_INVALID_PARAM\<rparr>), [], None)
   \<and> dec_status (VP8LClear ((VP8LNew (rp_fx ()))\<lparr>dec_status := VP8_STATUS_INVALID_PARAM\<rparr>)) \<noteq> VP8_STATUS_OK"
proof -
  have h: "VP8LDecodeImage (\<lambda>io. None) pk_fx (\<lambda>s. True) 0 (VP8LNew (rp_fx ())) []
     = (False, VP8LClear ((VP8LNew (rp_fx ()))\<lparr>dec_status := VP8_STATUS_INVALID_PARAM\<rparr>), [], None)"
    by (simp add: VP8LDecodeImage_def VP8LNew_def)
  show ?thesis
    using VP8LDecodeImage_error_status [OF h] h by simp
qed


subsection \<open>The row hook's state through a run of \<open>DecodeImageData\<close>\<close>

lemma hook_keeps_call_process:
  "hook_keeps P c \<Longrightarrow> P (dec_io (dd_dec s)) \<Longrightarrow> P (dec_io (dd_dec (call_process c s)))"
  unfolding hook_keeps_def call_process_def by (cases "ctx_process_func c") simp_all

lemma hook_keeps_advance_rows:
  "hook_keeps P c \<Longrightarrow> P (dec_io (dd_dec s)) \<Longrightarrow> P (dec_io (dd_dec (advance_rows c s)))"
proof (induction c s rule: advance_rows.induct)
  case (1 c s)
  show ?case
  proof (cases "0 < ctx_width c \<and> ctx_width c \<le> dd_col s")
    case True
    let ?s = "call_process c (s\<lparr>dd_col := dd_col s - ctx_width c, dd_row := Suc (dd_row s)\<rparr>)"
    have "P (dec_io (dd_dec ?s))"
      by (rule hook_keeps_call_process [OF "1.prems"(1)]) (simp add: "1.prems"(2))
    then have "P (dec_io (dd_dec (advance_rows c ?s)))"
      by (rule "1.IH" [OF True "1.prems"(1)])
    then show ?thesis
      using True by (subst advance_rows.simps) simp
  next
    case False
    then have "advance_rows c s = s" by (subst advance_rows.simps) auto
    then show ?thesis using "1.prems"(2) by simp
  qed
qed

lemma io_pieces [simp]:
  "dec_io (dd_dec (set_br s b)) = dec_io (dd_dec s)" "dec_io (dd_dec (set_pixel s v)) = dec_io (dd_dec s)"
  "dec_io (dd_dec (flush_cache s)) = dec_io (dd_dec s)"
  "dec_io (dd_dec (DecodeImageData_sync s)) = dec_io (dd_dec s)"
  "dec_io (dd_dec (DecodeImageData_tile s)) = dec_io (dd_dec s)"
  by (simp_all add: set_br_def set_pixel_def flush_cache_def DecodeImageData_sync_def SaveState_def
      DecodeImageData_tile_def Let_def)

lemma hook_keeps_advance_by_one:
  "hook_keeps P c \<Longrightarrow> P (dec_io (dd_dec s)) \<Longrightarrow> P (dec_io (dd_dec (advance_by_one c s)))"
proof -
  assume k: "hook_keeps P c" and p: "P (dec_io (dd_dec s))"
  have "P (dec_io (dd_dec (call_process c (s\<lparr>dd_src := Suc (dd_src s), dd_col := 0, dd_row := Suc (dd_row s)\<rparr>))))"
    by (rule hook_keeps_call_process [OF k]) (simp add: p)
  then show ?thesis
    using p by (simp add: advance_by_one_def Let_def)
qed

lemma hook_keeps_body:
  assumes k: "hook_keeps P c" and p: "P (dec_io (dd_dec s))"
  shows "P (dec_io (dd_dec (step_state (DecodeImageData_body c s))))"
proof -
  note a1 = hook_keeps_advance_by_one [OF k] and ar = hook_keeps_advance_rows [OF k]
  have lit: "P (dec_io (dd_dec (step_state (decode_literal c g code t))))" if "P (dec_io (dd_dec t))" for g code t
    using that unfolding decode_literal_def Let_def by (simp add: a1 split: prod.split)
  have bref: "P (dec_io (dd_dec (step_state (decode_backref c g code t))))" if "P (dec_io (dd_dec t))" for g code t
    using that unfolding decode_backref_def Let_def by (simp add: ar split: prod.split)
  have cref: "P (dec_io (dd_dec (decode_cache_ref c code t)))" if "P (dec_io (dd_dec t))" for code t
    using that unfolding decode_cache_ref_def Let_def by (simp add: a1)
  show ?thesis
    using p lit bref cref unfolding DecodeImageData_body_def Let_def by (simp split: prod.split)
qed

lemma hook_keeps_loop:
  "hook_keeps P c \<Longrightarrow> P (dec_io (dd_dec s)) \<Longrightarrow> DecodeImageData_loop c s = (ok, s')
   \<Longrightarrow> P (dec_io (dd_dec s'))"
proof (induction c s rule: DecodeImageData_loop.induct)
  case (1 c s)
  have b: "P (dec_io (dd_dec (step_state (DecodeImageData_body c s))))"
    using hook_keeps_body [OF "1.prems"(1,2)] .
  show ?case
  proof (cases "dd_src s < ctx_width c * ctx_last_row c")
    case False
    then show ?thesis using "1.prems" by (simp add: DecodeImageData_loop_step(1))
  next
    case True
    show ?thesis
    proof (cases "DecodeImageData_body c s")
      case (Continue t)
      then show ?thesis
        using "1.IH" [OF True Continue "1.prems"(1)] "1.prems"(3) b True by (simp add: DecodeImageData_loop_step(2))
    next
      case (Break t)
      then show ?thesis using "1.prems"(3) b True by (simp add: DecodeImageData_loop_step(3))
    next
      case (Fail t)
      then show ?thesis using "1.prems"(3) b True by (simp add: DecodeImageData_loop_step(4))
    qed
  qed
qed

lemma hook_keeps_DecodeImageData:
  assumes f: "\<And>io d r. P io \<Longrightarrow> P (f io d r)" and p: "P (dec_io dec)"
    and run: "DecodeImageData dec data width height last_row (Some f) addr = (ok, dec', data')"
  shows "P (dec_io dec')"
proof -
  let ?c = "\<lparr>ctx_width = width, ctx_height = height, ctx_last_row = last_row, ctx_process_func = Some f,
             ctx_data_addr = addr\<rparr>"
  have k: "hook_keeps P ?c" using f by (simp add: hook_keeps_def)
  obtain b s where loop: "DecodeImageData_loop ?c (DecodeImageData_init dec data width) = (b, s)"
    by fastforce
  have ps: "P (dec_io (dd_dec s))"
    using hook_keeps_loop [OF k _ loop] p by (simp add: DecodeImageData_init_def Let_def)
  have "P (dec_io (dd_dec (call_process_final ?c s)))"
    using ps f by (simp add: call_process_final_def)
  then show ?thesis
    using run loop ps
    by (auto simp: DecodeImageData_def RestoreState_def Let_def split: if_splits)
qed

lemma pipe_ok_ProcessRows:
  "pipe_ok io \<Longrightarrow> pipe_ok (ProcessRows k transforms n w io pixels row)"
  using ProcessRows_keeps_rows [of io k transforms n w pixels row] by (simp add: pipe_ok_def)

lemma VP8LDecodeImage_decode_rows:
  assumes "VP8LDecodeImage_decode k data_addr dec pixels = (True, dec', pixels', Some y)"
    and "pipe_ok (dec_io dec)"
  shows "pipe_ok (dec_io dec') \<and> y = rp_last_out_row (dec_io dec')"
proof -
  obtain ok d p where run: "DecodeImageData dec pixels (dec_width dec) (dec_height dec) (dec_height dec)
      (Some (ProcessRows k (dec_transforms dec) (dec_next_transform dec) (dec_width dec))) data_addr = (ok, d, p)"
    by (metis prod_cases3)
  have "pipe_ok (dec_io d)"
    using hook_keeps_DecodeImageData [OF pipe_ok_ProcessRows assms(2) run] .
  then show ?thesis
    using assms(1) run by (auto simp: VP8LDecodeImage_decode_def split: if_splits)
qed

lemma VP8LDecodeImage_success:
  assumes "VP8LDecodeImage init_io k alloc data_addr dec pixels = (True, dec', pixels', last_y)"
  shows "\<exists>d. VP8LDecodeImage_decode k data_addr d pixels = (True, dec', pixels', last_y)
           \<and> ((dec_state dec = READ_DATA \<and> d = dec)
              \<or> (dec_state dec \<noteq> READ_DATA \<and> init_io (dec_io dec) = Some (dec_io d)))"
proof (cases "dec_state dec = READ_DATA")
  case True
  then show ?thesis using assms by (simp add: VP8LDecodeImage_def)
next
  case False
  obtain io0 where init: "init_io (dec_io dec) = Some io0"
    using assms False by (cases "init_io (dec_io dec)") (simp_all add: VP8LDecodeImage_def)
  obtain ok d1 b where al: "AllocateInternalBuffers32b alloc (dec\<lparr>dec_io := io0\<rparr>) (rp_width io0) = (ok, d1, b)"
    by (metis prod_cases3)
  have io1: "dec_io d1 = io0"
    using al by (auto simp: AllocateInternalBuffers32b_def Let_def split: if_splits)
  show ?thesis
    using assms False init al io1
    by (auto simp: VP8LDecodeImage_def Let_def split: if_splits)
qed

text \<open>
  C37. When \<open>VP8LDecodeImage\<close> succeeds without rescaling, the row it reports in
  \<open>last_y\<close> is the number of rows of the crop window above \<open>last_row_\<close>: through the whole
  run of \<open>DecodeImageData\<close>, every call of \<open>ProcessRows\<close> has emitted the new rows of the
  crop window once and in order (spec 4.7 and 8.1), on the first call and on a resumed one.
\<close>

theorem VP8LDecodeImage_last_y:
  assumes "VP8LDecodeImage init_io k alloc data_addr dec pixels = (True, dec', pixels', Some y)"
    and "case init_io (dec_io dec) of None \<Rightarrow> True | Some io \<Rightarrow> pipe_ok io"
    and "dec_state dec = READ_DATA \<longrightarrow> pipe_ok (dec_io dec)"
  shows "pipe_ok (dec_io dec')
         \<and> y = cropped_rows (rp_crop_top (dec_io dec')) (rp_crop_bottom (dec_io dec')) (rp_last_row (dec_io dec'))"
proof -
  obtain d where run: "VP8LDecodeImage_decode k data_addr d pixels = (True, dec', pixels', Some y)"
    and io: "(dec_state dec = READ_DATA \<and> d = dec)
             \<or> (dec_state dec \<noteq> READ_DATA \<and> init_io (dec_io dec) = Some (dec_io d))"
    using VP8LDecodeImage_success [OF assms(1)] by blast
  have "pipe_ok (dec_io d)"
    using io assms(2,3) by auto
  then have "pipe_ok (dec_io dec') \<and> y = rp_last_out_row (dec_io dec')"
    using VP8LDecodeImage_decode_rows [OF run] by blast
  then show ?thesis by (simp add: pipe_ok_def)
qed

theorem VP8LDecodeImage_last_y_witness:
  "\<exists>d p y. VP8LDecodeImage (\<lambda>io. Some io) pk_fx (\<lambda>s. True) 0 api_fx_dec [0, 0, 0, 0] = (True, d, p, Some y)
     \<and> y = cropped_rows (rp_crop_top (dec_io d)) (rp_crop_bottom (dec_io d)) (rp_last_row (dec_io d))"
proof -
  let ?c = "\<lparr>ctx_width = 2, ctx_height = 2, ctx_last_row = 2,
             ctx_process_func = Some (ProcessRows pk_fx [] 0 2), ctx_data_addr = 0\<rparr>"
  have "\<exists>s1. DecodeImageData_body ?c (DecodeImageData_init api_fx_dec [0, 0, 0, 0] 2) = Continue s1
          \<and> dd_src s1 = 4 \<and> \<not> br_eos (dec_br (dd_dec s1))"
    by (simp add: DecodeImageData_body_def decode_literal_def api_fx_dec_def fx_hdr_def fx_grp_def Let_def
        ReadSymbol_def VP8LPrefetchBits_zero VP8LInitBitReader_def DecodeImageData_init_def
        DecodeImageData_sync_def DecodeImageData_tile_def set_br_def set_pixel_def VP8LSetBitPos_def
        VP8LIsEndOfStream_def HUFFMAN_TABLE_BITS_def HUFFMAN_TABLE_MASK_def GetHtreeGroupForPos_def
        GetMetaIndex_def GREEN_def advance_by_one_def call_process_def cache_on_def NUM_ARGB_CACHE_ROWS_def)
  then obtain s1 where b: "DecodeImageData_body ?c (DecodeImageData_init api_fx_dec [0, 0, 0, 0] 2) = Continue s1"
    and p: "dd_src s1 = 4" and e: "\<not> br_eos (dec_br (dd_dec s1))" by blast
  have i: "dd_src (DecodeImageData_init api_fx_dec [0, 0, 0, 0] 2) = 3"
    by (simp add: DecodeImageData_init_def api_fx_dec_def)
  have loop: "DecodeImageData_loop ?c (DecodeImageData_init api_fx_dec [0, 0, 0, 0] 2) = (True, s1)"
    using DecodeImageData_loop_step(2) [OF _ b] DecodeImageData_loop_step(1) [of s1 ?c] i p by simp
  have "\<exists>d p. DecodeImageData api_fx_dec [0, 0, 0, 0] 2 2 2 (Some (ProcessRows pk_fx [] 0 2)) 0 = (True, d, p)"
    using loop e by (simp add: DecodeImageData_def api_fx_dec_def Let_def)
  then obtain d0 p0 where r: "DecodeImageData api_fx_dec [0, 0, 0, 0] 2 2 2 (Some (ProcessRows pk_fx [] 0 2)) 0 = (True, d0, p0)"
    by blast
  have run: "VP8LDecodeImage (\<lambda>io. Some io) pk_fx (\<lambda>s. True) 0 api_fx_dec [0, 0, 0, 0]
               = (True, d0, p0, Some (rp_last_out_row (dec_io d0)))"
    using r by (simp add: VP8LDecodeImage_def VP8LDecodeImage_decode_def api_fx_dec_def)
  have h: "case (\<lambda>io. Some io) (dec_io api_fx_dec) of None \<Rightarrow> True | Some io \<Rightarrow> pipe_ok io"
    "dec_state api_fx_dec = READ_DATA \<longrightarrow> pipe_ok (dec_io api_fx_dec)"
    by (simp_all add: api_fx_dec_def pipe_ok_def rp_fx_def cropped_rows_def)
  show ?thesis
    using VP8LDecodeImage_last_y [OF run h] run by blast
qed

subsection \<open>The alpha header\<close>

text \<open>
  C39. When \<open>VP8LDecodeAlphaHeader\<close> succeeds it has chosen the 8-bit path exactly for a
  stream whose only transform is colour indexing and whose codes \<open>Is8bOptimizable\<close>
  accepts; the 8-bit path gets one byte per pixel and no \<open>argb_cache_\<close>, the 32-bit path
  the image, the top row (the 16-bit cast of the width) and 16 cache rows of 4 bytes.
\<close>

theorem VP8LDecodeAlphaHeader_buffers:
  assumes "VP8LDecodeAlphaHeader build alloc io w h data = Some (dec, use_8b, b)"
  shows "use_8b = (dec_next_transform dec = 1 \<and> tr_type (dec_transforms dec ! 0) = COLOR_INDEXING_TRANSFORM
                   \<and> Is8bOptimizable (dec_hdr dec))
         \<and> b = (if use_8b then \<lparr>buf_bytes = dec_width dec * dec_height dec, buf_argb_cache = None\<rparr>
               else \<lparr>buf_bytes = (dec_width dec * dec_height dec + w mod 65536 + NUM_ARGB_CACHE_ROWS * w) * 4,
                     buf_argb_cache = Some (dec_width dec * dec_height dec + w mod 65536)\<rparr>)"
  using assms
  by (auto simp: VP8LDecodeAlphaHeader_def AllocateInternalBuffers8b_def AllocateInternalBuffers32b_def
                 cache_top_pixels Let_def algebra_simps split: prod.splits if_splits)

theorem VP8LDecodeAlphaHeader_buffers_witness:
  "\<exists>dec. VP8LDecodeAlphaHeader hc_build_fx (\<lambda>_. True) () 1 1 [136, 136, 8, 0, 0, 0, 0, 0]
     = Some (dec, False, \<lparr>buf_bytes = (dec_width dec * dec_height dec + 17) * 4,
                          buf_argb_cache = Some (dec_width dec * dec_height dec + 1)\<rparr>)"
proof -
  have e: "map_option (\<lambda>(d, u, b). (dec_next_transform d, u))
             (VP8LDecodeAlphaHeader hc_build_fx (\<lambda>_. True) () 1 1 [136, 136, 8, 0, 0, 0, 0, 0])
           = Some (0, False)"
    by code_simp
  then obtain dec u b where
    r: "VP8LDecodeAlphaHeader hc_build_fx (\<lambda>_. True) () 1 1 [136, 136, 8, 0, 0, 0, 0, 0] = Some (dec, u, b)"
    by (auto split: option.splits)
  with e have "\<not> u" by simp
  with VP8LDecodeAlphaHeader_buffers [OF r] r show ?thesis
    by (simp add: NUM_ARGB_CACHE_ROWS_def)
qed

text \<open>
  C40. If the decoder or the internal buffers cannot be allocated,
  \<open>VP8LDecodeAlphaHeader\<close> fails, whatever the stream.
\<close>

theorem VP8LDecodeAlphaHeader_alloc_fail:
  "VP8LDecodeAlphaHeader build (alloc(ALLOC_INTERNAL_BUFFERS := False)) io w h data = None
   \<and> VP8LDecodeAlphaHeader build (alloc(ALLOC_DECODER := False)) io w h data = None"
  by (simp add: VP8LDecodeAlphaHeader_def AllocateInternalBuffers8b_def AllocateInternalBuffers32b_def
                Let_def split: prod.splits)

end
