(* ===== verification/Spec2Isabelle.thy ===== *)
theory Spec2Isabelle
  imports Codes CopyBlock CopyBlock8 DecodeProps HuffmanCodes ImageStream AlphaRefine RowPipeline DecoderAPI
begin

text \<open>
  \<^bold>\<open>A verification model of the VP8L lossless decoder\<close> (src/src/loaders/webp/dec/vp8l.cpp,
  the lossless WebP decoder ThorVG carries from libwebp).

  \<^bold>\<open>The program.\<close>  \<open>VP8LGetInfo\<close>/\<open>VP8LDecodeHeader\<close> read the 5-byte header through
  the bit reader; \<open>DecodeImageStream\<close> reads transforms, the colour-cache descriptor and
  the Huffman codes (\<open>ReadHuffmanCodes\<close>), then \<open>DecodeImageData\<close> decodes the pixels:
  per pixel a green symbol read with \<open>ReadSymbol\<close> from the Huffman group of the
  pixel's tile, then a literal, a back-reference (\<open>GetCopyLength\<close>,
  \<open>GetCopyDistance\<close>, \<open>PlaneCodeToDistance\<close>, copied by \<open>CopyBlock32b\<close>) or a
  colour-cache reference; every 16 rows the row pipeline (\<open>ProcessRows\<close>) runs on the
  decoded block.  The alpha plane uses the byte variant \<open>CopyBlock8b\<close>.

  \<^bold>\<open>Theories.\<close>
  \<^item> \<open>Prelude\<close>: the machine types (\<open>u8\<close>, \<open>u32\<close>, \<open>u64\<close> words), little-endian
    numbers \<open>le_value\<close>/\<open>le_bytes\<close>, the forward element loop \<open>copy_fwd\<close> and \<open>memcpy\<close>
    (\<open>mem_copy\<close>) with their nth characterisations and periodicity lemmas.
  \<^item> \<open>BitReader\<close>: the bit reader (utils/bit_reader is not under src/; modelled from
    the spec: LSB-first reads, at most 24 bits, zero bits and a sticky end-of-stream
    flag past the end; the 64-bit window is abstracted to an absolute bit position) and
    the header parser \<open>VP8LCheckSignature\<close>, \<open>ReadImageInfo\<close>, \<open>VP8LGetInfo\<close> (lines
    109--144).  C1, C2: the header reads back exactly what a header encoder packs, and
    every accepted header is well formed.
  \<^item> \<open>Codes\<close>: the LZ77 prefix codes \<open>GetCopyDistance\<close>/\<open>GetCopyLength\<close> and the 2-D
    distance map \<open>PlaneCodeToDistance\<close> with the table \<open>kCodeToPlane\<close> (lines 62--175).
    C3: every distance up to \<open>2^20\<close> round-trips through its prefix code; C4: the 120
    plane codes give 120 distinct distances on images at least 16 pixels wide.
  \<^item> \<open>CopyBlock\<close>, \<open>CopyBlock8\<close>: the optimised back-reference copies (lines 766--880),
    with the destination's byte address as an argument because only its alignment
    decides the path, and little-endian pattern stores.  C5, C7: both equal the
    forward element loop on every path; C6: the run-length pattern of spec 8.5;
    C8: the pattern rotation \<open>Rotate8b\<close> is the word rotation right by one byte.
  \<^item> \<open>ColorCache\<close>: the colour cache (utils/color_cache, from the spec): hash, insert,
    lookup, copy.
  \<^item> \<open>Huffman\<close>: \<open>ReadSymbol\<close> (lines 181--195) on the shared table array and the
    \<open>HTreeGroup\<close> record.
  \<^item> \<open>DecodeStep\<close>: the decoder state (\<open>VP8LDecoder\<close>, \<open>VP8LMetadata\<close>), \<open>GetMetaIndex\<close>,
    \<open>GetHtreeGroupForPos\<close>, \<open>SaveState\<close>, \<open>RestoreState\<close>, \<open>UpdateDecoder\<close>, and one
    pass of the main loop of \<open>DecodeImageData\<close>: the loop's locals are the record
    \<open>dd_state\<close>, each branch is one definition (\<open>decode_literal\<close>, \<open>decode_backref\<close>,
    \<open>decode_cache_ref\<close>, with \<open>advance_by_one\<close> for the label \<open>AdvanceByOne\<close>), and a
    pass ends in \<open>Continue\<close>, \<open>Break\<close> or \<open>Fail\<close> (\<open>goto Error\<close>).  The row hook
    \<open>process_func\<close> is a parameter acting only on the row pipeline's state \<open>'o\<close>.
  \<^item> \<open>DecodeLoop\<close>: the loop \<open>DecodeImageData_loop\<close> and \<open>DecodeImageData\<close>.  The loop
    is a total function: every pass that continues moves \<open>src\<close> forward (a back-reference
    has length at least 1), so \<open>width * last_row - src\<close> decreases; no fuel is needed.
  \<^item> \<open>DecodeInv\<close>: the reachable states \<open>dd_reach\<close> (an inductive relation) and the
    invariants proved by rule induction: positions (\<open>pos_inv\<close>), tiles (\<open>tile_inv\<close>),
    the lazy colour cache (\<open>cache_inv\<close>), snapshots (\<open>sync_inv\<close>), combined in \<open>dd_inv\<close>.
  \<^item> \<open>DecodeProps\<close>: the decoder's properties and the fixture they are witnessed on.
    C9: a back-reference the loop accepts is inside the buffer and writes the run-length
    pattern; C10: every symbol is decoded with the group of its tile; C11: position
    tracking; C12, C13: the lazily filled colour cache agrees at every lookup with a
    cache filled after every pixel; C14: a snapshot never misses a pending pixel;
    C15: no snapshot outside incremental mode; C16: \<open>VP8_STATUS_OK\<close> only after every
    pixel up to \<open>last_row\<close> is decoded.

  \<^item> \<open>HuffmanCodes\<close>: reading the Huffman codes (lines 26--60, 197--409):
    \<open>ReadHuffmanCodeLengths\<close> (its symbol loop \<open>code_lengths_loop\<close> recurses on
    \<open>max_symbol\<close>), \<open>ReadHuffmanCode\<close> (simple and normal codes), \<open>ReadHuffmanCodes\<close>
    (meta-Huffman image, the five codes of each group, the trivial-literal hint).  The
    table builder \<open>VP8LBuildHuffmanTable\<close> (utils/, not under src/) is a parameter
    \<open>build\<close>, the recursive stream call for the meta image a parameter \<open>decode_stream\<close>.
    C17: the code lengths handed to the builder are below 16; C18: the trivial-literal
    fast path equals reading three symbols (spec 8.6); C19: an accepted header is safe for
    the decoding loop; C20: failure is size 0 with \<open>BITSTREAM_ERROR\<close>.
  \<^item> \<open>Transforms\<close>: the sub-streams and the transforms (lines 1118--1221, 1272--1360):
    \<open>DecodeImageStream_tail\<close> (cache descriptor, Huffman codes, \<open>UpdateDecoder\<close>, pixels),
    \<open>DecodeImageStream_sub\<close> (level 1), \<open>ReadTransform\<close>, \<open>ExpandColorMap\<close> on the
    palette's bytes, \<open>InitMetadata\<close>/\<open>ClearMetadata\<close>; frame lemmas (\<open>tr_frame\<close>)
    showing the sub-streams leave the transform part of the decoder alone.  C21: the
    expanded palette holds byte-wise prefix sums; C22: the colour-indexing packing
    (\<open>color_index_bits\<close>) fits every index, is the densest that does, and its packed width
    covers the row; C26: a second expansion keeps the palette exactly when its first
    \<open>num_colors - 1\<close> colours are zero, against spec 8 property 7.
  \<^item> \<open>ImageStream\<close>: the top-level stream and the API: the transform loop
    \<open>read_transforms_loop\<close> (total: each pass that continues reads an unseen type),
    \<open>DecodeImageStream\<close>, \<open>VP8LNew\<close>, \<open>VP8LClear\<close>, \<open>VP8LDecodeHeader\<close>.  C23: at most
    four transforms, each type once; C24: a failed \<open>VP8LDecodeHeader\<close> never reports
    \<open>OK\<close>; C25: a failed Huffman allocation is reported as \<open>BITSTREAM_ERROR\<close>, against
    the spec's \<open>OUT_OF_MEMORY\<close>.

  \<^item> \<open>AlphaPath\<close>, \<open>AlphaDecode\<close>: the 8-bit alpha path (lines 739--763, 884--965):
    \<open>Is8bOptimizable\<close>, the row hook \<open>ExtractPalettedAlphaRows\<close> with its watermarks
    (\<open>alpha_out\<close>; the kernel \<open>ApplyInverseTransformsAlpha\<close> is a parameter), one pass
    \<open>DecodeAlphaData_body\<close> (the back-reference branch \<open>ad_decode_backref\<close>), the loop
    \<open>DecodeAlphaData_loop\<close> (total: each pass that continues moves \<open>pos\<close>), and
    \<open>DecodeAlphaData\<close>.  \<open>DecodeAlphaData_loop_rule\<close> is the induction over a run
    the loop lemmas share.  C28: success only after \<open>width * last_row\<close> pixels; C29: a
    failure keeps \<open>last_pixel_\<close> and reports \<open>SUSPENDED\<close> exactly at the end of the
    stream; C30: the watermarks end at the row of \<open>last_pixel_\<close> (the invariant
    \<open>pos = row * width + col\<close>); C31: at most \<open>width * last_row - pos\<close> passes, stated
    with the pass-bounded loop \<open>DecodeAlphaData_loop_fuel\<close>.
  \<^item> \<open>AlphaRefine\<close>: the 8-bit loop refines the 32-bit loop of \<open>DecodeImageData\<close>
    on the headers \<open>Is8bOptimizable\<close> accepts: the abstraction relation \<open>alpha_rel\<close>
    maps the pixel buffer to its green channel (\<open>green\<close>, the extraction of
    \<open>ExtractAlphaRows\<close>); one pass (\<open>alpha_pass_sim\<close>) and the whole loop (C27) keep it.
  \<^item> \<open>RowPipeline\<close>: the row hook of the 32-bit path (lines 489--501, 601--641,
    664--738, 1398--1415): \<open>SetCropWindow\<close>, \<open>ApplyInverseTransforms\<close> (a copy of
    the rows into \<open>argb_cache_\<close>, then the inverse transforms last to first),
    \<open>EmitRows\<close>/\<open>EmitRowsYUVA\<close>, \<open>ProcessRows\<close> and \<open>ExtractAlphaRows\<close>.  Its state
    \<open>row_pipe\<close> is what these functions touch of \<open>VP8LDecoder\<close> and \<open>VP8Io\<close>; the dsp
    kernels and the rescaler are fields of \<open>pipe_kernels\<close>.  The lemmas show the crop
    window's clipping with the pointer advance (C32), that \<open>last_out_row_\<close> counts the
    cropped rows above \<open>last_row_\<close> (C33), that the alpha rows are the green channel
    (C34), and that, without transforms and rescaling, the converter receives exactly
    the crop window's rows, row \<open>y\<close> as output row \<open>y - crop_top\<close> cut to
    \<open>[crop_left, crop_right)\<close> (C38, with the recording kernel \<open>pk_rec\<close>).
  \<^item> \<open>DecoderAPI\<close>: \<open>AllocateInternalBuffers32b\<close>/\<open>8b\<close> as the layout of the block
    (\<open>buffers\<close>; the \<open>uint16_t\<close> cast of the top row is a 16-bit word),
    \<open>VP8LDecodeAlphaHeader\<close> and \<open>VP8LDecodeImage\<close> with \<open>ProcessRows\<close> as the hook of
    \<open>DecodeImageData\<close>.  \<open>hook_keeps\<close> lifts a property of the hook through the whole
    decode.  The lemmas give the buffer layout (C36), the error status (C35) and the
    reported \<open>last_y\<close> (C37), and for the alpha header the choice of the 8-bit path
    with its buffers (C39) and its failure when an allocation fails (C40).

  \<^bold>\<open>Allocation.\<close>  Allocation results are an oracle \<open>alloc\<close> on the allocation sites
  (\<open>alloc_site\<close>), so every out-of-memory path is a branch of the model.

  \<^bold>\<open>Bounds.\<close>  Image sides are at most 16384 (14-bit fields), which is what makes the
  sentinel sync row \<open>1 << 24\<close> unreachable (C15).  Reads are at most 24 bits.  Width 0
  is excluded by the C code dividing by the width on entry; the row-advance loop's
  guard \<open>0 < width\<close> only makes that explicit.

  \<^bold>\<open>Not modelled.\<close>  The Huffman table builder and the colour-cache and
  bit-reader internals live in utils/ (not under src/) and are modelled from the spec or
  as parameters, as are the inverse-transform and colour-conversion kernels (dsp/) and
  the rescaler (utils/rescaler), which the row pipeline takes as a kernel record; the
  rescaler drivers \<open>EmitRescaledRowsRGBA/YUVA\<close>, \<open>ExportYUVA\<close> and
  \<open>AllocateAndInitRescaler\<close> only call those kernels and are not modelled.
  \<open>VP8LDecodeAlphaImageStream\<close> only dispatches to the two modelled loops, and
  \<open>VP8LDelete\<close> only frees memory.  Big-endian, ARM and MIPS variants of the pattern
  construction are not modelled.  src/examples/Example.cpp is a drawing example that
  does not use the decoder.
\<close>

end
